theory Spec2Isabelle
  imports Main "HOL-Library.Sublist" "HOL-Library.AList"
begin

section \<open>JavaScript values\<close>

text \<open>
  The options of the command are plain JavaScript values: they come from the command
  line (strings and booleans) and from the static configuration (JSON). Numbers are
  restricted to integers; functions do not occur in either source.
\<close>

datatype jsval =
    JUndefined
  | JNull
  | JBool bool
  | JNum int
  | JStr string
  | JArr "jsval list"
  | JObj "(string \<times> jsval) list"

type_synonym jsobj = "(string \<times> jsval) list"

text \<open>JavaScript truthiness (\<open>ToBoolean\<close>): what \<open>if (v)\<close>, \<open>!v\<close> and \<open>v ? a : b\<close> test.\<close>

fun truthy :: "jsval \<Rightarrow> bool" where
  "truthy JUndefined = False"
| "truthy JNull = False"
| "truthy (JBool b) = b"
| "truthy (JNum n) = (n \<noteq> 0)"
| "truthy (JStr s) = (s \<noteq> [])"
| "truthy (JArr xs) = True"
| "truthy (JObj kvs) = True"

text \<open>Property read \<open>obj[name]\<close> on an object: a missing key reads as \<open>undefined\<close>.\<close>

definition get :: "jsobj \<Rightarrow> string \<Rightarrow> jsval" where
  "get obj name = (case map_of obj name of None \<Rightarrow> JUndefined | Some v \<Rightarrow> v)"

definition has_key :: "jsobj \<Rightarrow> string \<Rightarrow> bool" where
  "has_key obj name = (map_of obj name \<noteq> None)"

text \<open>Decimal digits of an integer, as \<open>String(n)\<close> prints it.\<close>

fun show_nat :: "nat \<Rightarrow> string" where
  "show_nat n =
     (if n < 10 then [''0123456789'' ! n]
      else show_nat (n div 10) @ [''0123456789'' ! (n mod 10)])"

declare show_nat.simps [simp del]

definition show_int :: "int \<Rightarrow> string" where
  "show_int i = (if i < 0 then CHR ''-'' # show_nat (nat (- i)) else show_nat (nat i))"

fun join_with :: "string \<Rightarrow> string list \<Rightarrow> string" where
  "join_with sep [] = []"
| "join_with sep [x] = x"
| "join_with sep (x # y # ys) = x @ sep @ join_with sep (y # ys)"

text \<open>
  String conversion (\<open>ToString\<close>), which \<open>'...' + v\<close> applies to \<open>v\<close>. An array prints
  its elements separated by commas, \<open>null\<close> and \<open>undefined\<close> elements as nothing.
\<close>

fun to_string :: "jsval \<Rightarrow> string"
  and element_string :: "jsval \<Rightarrow> string" where
  "to_string JUndefined = ''undefined''"
| "to_string JNull = ''null''"
| "to_string (JBool b) = (if b then ''true'' else ''false'')"
| "to_string (JNum n) = show_int n"
| "to_string (JStr s) = s"
| "to_string (JArr xs) = join_with '','' (map element_string xs)"
| "to_string (JObj kvs) = ''[object Object]''"
| "element_string JUndefined = []"
| "element_string JNull = []"
| "element_string (JBool b) = to_string (JBool b)"
| "element_string (JNum n) = to_string (JNum n)"
| "element_string (JStr s) = to_string (JStr s)"
| "element_string (JArr xs) = to_string (JArr xs)"
| "element_string (JObj kvs) = to_string (JObj kvs)"

section \<open>Option merging\<close>

text \<open>
  \<open>_.assign(options, AquiferGitConfig, commandOptions, customizer)\<close>, the form of
  \<open>assign\<close> whose last argument is a customizer: each source in
  turn is assigned onto \<open>options\<close>, key by key, the value stored being what the customizer
  returns for the value already there and the source's value. The assignment is made when
  the result differs from the value there, or when the key is new and the result is
  \<open>undefined\<close>. A source that is absent (\<open>undefined\<close>) is skipped, which is what the empty
  object gives.
\<close>

definition customizer :: "jsval \<Rightarrow> jsval \<Rightarrow> jsval" where
  "customizer lastValue nextValue = (if truthy nextValue then nextValue else lastValue)"

definition assign_key :: "jsobj \<Rightarrow> jsobj \<Rightarrow> string \<Rightarrow> jsobj" where
  "assign_key source object key =
     (let value = get object key;
          result = customizer value (get source key)
      in if result \<noteq> value \<or> (value = JUndefined \<and> \<not> has_key object key)
         then AList.update key result object
         else object)"

definition assign_with :: "jsobj \<Rightarrow> jsobj \<Rightarrow> jsobj" where
  "assign_with object source = foldl (assign_key source) object (remdups (map fst source))"

definition default_options :: jsobj where
  "default_options =
     [(''deploymentFiles'', JArr []),
      (''excludeLinks'', JArr [JStr ''sites/default/files'']),
      (''addLinks'', JArr []),
      (''delPatterns'', JArr [JStr ''*'', JStr ''!.git''])]"

definition merge_options :: "jsobj \<Rightarrow> jsobj \<Rightarrow> jsobj" where
  "merge_options aquiferGitConfig commandOptions =
     assign_with (assign_with default_options aquiferGitConfig) commandOptions"

section \<open>Paths\<close>

text \<open>
  Node's \<open>path.join\<close> (POSIX): the non-empty arguments are joined by \<open>/\<close> and the result
  is normalised: empty and \<open>.\<close> segments are dropped, \<open>..\<close> removes the segment before
  it, and is kept at the front of a relative path only. An argument that is not a string
  is a \<open>TypeError\<close>.
\<close>

type_synonym reason = string

fun split_on :: "char \<Rightarrow> string \<Rightarrow> string list" where
  "split_on c [] = [[]]"
| "split_on c (x # xs) =
     (if x = c then [] # split_on c xs
      else (case split_on c xs of [] \<Rightarrow> [[x]] | p # ps \<Rightarrow> (x # p) # ps))"

fun normalizeArray :: "string list \<Rightarrow> bool \<Rightarrow> string list \<Rightarrow> string list" where
  "normalizeArray [] allowAboveRoot res = res"
| "normalizeArray (p # parts) allowAboveRoot res =
     (if p = [] \<or> p = ''.'' then normalizeArray parts allowAboveRoot res
      else if p = ''..'' then
        (if res \<noteq> [] \<and> last res \<noteq> ''..''
         then normalizeArray parts allowAboveRoot (butlast res)
         else if allowAboveRoot then normalizeArray parts allowAboveRoot (res @ [''..''])
         else normalizeArray parts allowAboveRoot res)
      else normalizeArray parts allowAboveRoot (res @ [p]))"

definition isAbsolute :: "string \<Rightarrow> bool" where
  "isAbsolute p = (p \<noteq> [] \<and> hd p = CHR ''/'')"

definition normalize :: "string \<Rightarrow> string" where
  "normalize p =
     (let trailingSlash = (p \<noteq> [] \<and> last p = CHR ''/'');
          p1 = join_with ''/'' (normalizeArray (split_on CHR ''/'' p) (\<not> isAbsolute p) []);
          p2 = (if p1 = [] \<and> \<not> isAbsolute p then ''.'' else p1);
          p3 = (if p2 \<noteq> [] \<and> trailingSlash then p2 @ ''/'' else p2)
      in (if isAbsolute p then ''/'' else []) @ p3)"

definition path_join :: "string list \<Rightarrow> string" where
  "path_join segments = normalize (join_with ''/'' (filter (\<lambda>s. s \<noteq> []) segments))"

fun string_args :: "jsval list \<Rightarrow> string list option" where
  "string_args [] = Some []"
| "string_args (JStr s # vs) = map_option ((#) s) (string_args vs)"
| "string_args (v # vs) = None"

definition js_path_join :: "jsval list \<Rightarrow> reason + string" where
  "js_path_join args =
     (case string_args args of
        None \<Rightarrow> Inl ''TypeError: Arguments to path.join must be strings''
      | Some segments \<Rightarrow> Inr (path_join segments))"

section \<open>The file system\<close>

text \<open>
  The file system that \<open>fs-extra\<close> and \<open>mktemp\<close> act on: a map from resolved paths (the
  segments below the root) to what is there, a regular file or a directory. A path given
  to a file-system call is resolved against the working directory of the process. What is
  left out: symbolic links and permissions; the creation of missing parent directories
  (an entry is kept independently of its ancestors); and every failure of a removal.
\<close>

type_synonym path = "string list"

datatype node = File string | Dir

type_synonym filesystem = "path \<Rightarrow> node option"

definition resolve :: "path \<Rightarrow> string \<Rightarrow> path" where
  "resolve workdir p =
     normalizeArray ((if isAbsolute p then [] else workdir) @ split_on CHR ''/'' p) False []"

text \<open>Deleting what is at one path, with everything below it.\<close>

definition delete_tree :: "path \<Rightarrow> filesystem \<Rightarrow> filesystem" where
  "delete_tree p fs = (\<lambda>k. if prefix p k then None else fs k)"

text \<open>Copying what is at \<open>src\<close>, with everything below it, to \<open>dest\<close>.\<close>

definition copy_tree :: "path \<Rightarrow> path \<Rightarrow> filesystem \<Rightarrow> filesystem" where
  "copy_tree src dest fs =
     (\<lambda>k. if prefix dest k
          then (case fs (src @ drop (length dest) k) of Some n \<Rightarrow> Some n | None \<Rightarrow> fs k)
          else fs k)"

definition is_file :: "filesystem \<Rightarrow> path \<Rightarrow> bool" where
  "is_file fs p = (case fs p of Some (File content) \<Rightarrow> True | _ \<Rightarrow> False)"

text \<open>A path one of whose proper ancestors is a regular file: nothing can be created there.\<close>

definition below_file :: "filesystem \<Rightarrow> path \<Rightarrow> bool" where
  "below_file fs p = list_ex (\<lambda>q. q \<noteq> p \<and> is_file fs q) (prefixes p)"

definition trailing_slash :: "string \<Rightarrow> bool" where
  "trailing_slash p = (p \<noteq> [] \<and> last p = CHR ''/'')"

section \<open>The collaborators and the state of a run\<close>

text \<open>
  What a run does to the outside is recorded in order: console messages, calls of the
  caller's callback, and each call of a collaborator, recorded when the call is made.
\<close>

datatype event =
    Log string string
  | Callback string
  | CreateDir string
  | Invoke string
  | Build string jsobj
  | Remove "string option"
  | Copy string string

text \<open>
  The collaborators whose behaviour the command does not decide: \<open>Aquifer.projectDir\<close>,
  the working directory of the process, the name \<open>mktemp\<close> generates for a template (or
  the error it rejects with), the process runner \<open>run.invoke\<close> and the site builder
  \<open>build.create\<close>. The last two may do anything to the file system and either resolve
  (\<open>None\<close>) or reject with a reason. Of the file-system library the environment decides
  what is not worked out here: which paths hold glob patterns (\<open>glob.hasMagic\<close>), the
  paths a pattern matches (\<open>glob.sync\<close>, resolved), and what a copy does when its
  destination lies inside its source or exists already. Constructing the runner and the
  builder has no effect of its own, and the console and the caller's callback return
  normally. A rejection reason, an error thrown and a message passed to the callback are
  represented by their text.
\<close>

record env =
  projectDir :: string
  cwd :: path
  mktemp :: "string \<Rightarrow> reason + string"
  invoke :: "string \<Rightarrow> filesystem \<Rightarrow> reason option \<times> filesystem"
  builder :: "string \<Rightarrow> jsobj \<Rightarrow> filesystem \<Rightarrow> reason option \<times> filesystem"
  hasMagic :: "string \<Rightarrow> bool"
  glob :: "string \<Rightarrow> filesystem \<Rightarrow> path list"
  copy_irregular :: "string \<Rightarrow> string \<Rightarrow> filesystem \<Rightarrow> reason option \<times> filesystem"

text \<open>The state a run threads through its steps; \<open>destPath\<close> is the variable of that name.\<close>

record state =
  files :: filesystem
  trace :: "event list"
  destPath :: "string option"

definition emit :: "event \<Rightarrow> state \<Rightarrow> state" where
  "emit e s = s\<lparr>trace := trace s @ [e]\<rparr>"

definition callback :: "string \<Rightarrow> state \<Rightarrow> state" where
  "callback msg s = emit (Callback msg) s"

definition console_log :: "string \<Rightarrow> string \<Rightarrow> state \<Rightarrow> state" where
  "console_log msg kind s = emit (Log msg kind) s"

definition mktemp_createDir :: "env \<Rightarrow> string \<Rightarrow> state \<Rightarrow> (reason + string) \<times> state" where
  "mktemp_createDir e template s =
     (let s1 = emit (CreateDir template) s
      in case mktemp e template of
           Inl err \<Rightarrow> (Inl err, s1)
         | Inr name \<Rightarrow> (Inr name, s1\<lparr>files := (files s1)(resolve (cwd e) name \<mapsto> Dir)\<rparr>))"

definition run_invoke :: "env \<Rightarrow> string \<Rightarrow> state \<Rightarrow> reason option \<times> state" where
  "run_invoke e command s =
     (let s1 = emit (Invoke command) s;
          (r, fs) = invoke e command (files s1)
      in (r, s1\<lparr>files := fs\<rparr>))"

definition build_create :: "env \<Rightarrow> string \<Rightarrow> jsobj \<Rightarrow> state \<Rightarrow> reason option \<times> state" where
  "build_create e buildPath buildOptions s =
     (let s1 = emit (Build buildPath buildOptions) s;
          (r, fs) = builder e buildPath buildOptions (files s1)
      in (r, s1\<lparr>files := fs\<rparr>))"

text \<open>
  What \<open>fs.removeSync(p)\<close> does to the file system. The path is deleted with everything
  below it, and nothing happens when nothing is there. When the path holds a glob pattern
  and nothing exists under its literal name, every path the pattern matches is deleted
  instead. The removal is taken to succeed on every path.
\<close>

definition remove_path :: "env \<Rightarrow> string \<Rightarrow> filesystem \<Rightarrow> filesystem" where
  "remove_path e p fs =
     (if hasMagic e p \<and> fs (resolve (cwd e) p) = None
      then fold delete_tree (glob e p fs) fs
      else delete_tree (resolve (cwd e) p) fs)"

text \<open>
  What \<open>fs.copySync(src, dest, {clobber: true})\<close> does to the file system, and the error
  it throws. It throws when the source does not exist, when the source is a regular file
  named with a trailing slash, when the destination lies below a regular file, and when a
  regular file is copied to a destination named with a trailing slash; none of these
  changes the file system. Otherwise the source is copied, a file or a directory with
  everything below it. A copy whose destination lies inside its source, or exists
  already, is left to the environment: the loop over the deployment files removes each
  destination before it copies.
\<close>

definition copy_path :: "env \<Rightarrow> string \<Rightarrow> string \<Rightarrow> filesystem \<Rightarrow> reason option \<times> filesystem" where
  "copy_path e src dest fs =
     (let S = resolve (cwd e) src; D = resolve (cwd e) dest
      in if fs S = None then (Some (''ENOENT: no such file or directory: '' @ src), fs)
         else if is_file fs S \<and> trailing_slash src
         then (Some (''ENOTDIR: not a directory: '' @ src), fs)
         else if prefix S D \<or> fs D \<noteq> None then copy_irregular e src dest fs
         else if below_file fs D then (Some (''ENOTDIR: not a directory: '' @ dest), fs)
         else if is_file fs S \<and> trailing_slash dest
         then (Some (''EISDIR: illegal operation on a directory: '' @ dest), fs)
         else (None, copy_tree S D fs))"

text \<open>\<open>fs.removeSync(p)\<close>; with \<open>p\<close> undefined it throws before touching anything.\<close>

definition fs_removeSync :: "env \<Rightarrow> string option \<Rightarrow> state \<Rightarrow> reason option \<times> state" where
  "fs_removeSync e p s =
     (let s1 = emit (Remove p) s
      in case p of
           None \<Rightarrow> (Some ''TypeError: path must be a string'', s1)
         | Some q \<Rightarrow> (None, s1\<lparr>files := remove_path e q (files s1)\<rparr>))"

definition fs_copySync :: "env \<Rightarrow> string \<Rightarrow> string \<Rightarrow> state \<Rightarrow> reason option \<times> state" where
  "fs_copySync e src dest s =
     (let s1 = emit (Copy src dest) s;
          (r, fs) = copy_path e src dest (files s1)
      in (r, s1\<lparr>files := fs\<rparr>))"

section \<open>The deployment command\<close>

text \<open>
  A promise chain \<open>p.then(h1).then(h2)...\<close>: the handlers run in order, each once the
  one before has resolved; the first rejection skips the remaining handlers.
\<close>

type_synonym handler = "state \<Rightarrow> reason option \<times> state"

fun chain :: "handler list \<Rightarrow> handler" where
  "chain [] s = (None, s)"
| "chain (h # hs) s = (case h s of (None, s1) \<Rightarrow> chain hs s1 | (Some err, s1) \<Rightarrow> (Some err, s1))"

text \<open>Property read \<open>link.src\<close>, \<open>link.dest\<close> on an element of \<open>deploymentFiles\<close>.\<close>

fun read_prop :: "jsval \<Rightarrow> string \<Rightarrow> reason + jsval" where
  "read_prop JUndefined name = Inl (''TypeError: Cannot read property '' @ name @ '' of undefined'')"
| "read_prop JNull name = Inl (''TypeError: Cannot read property '' @ name @ '' of null'')"
| "read_prop (JObj kvs) name = Inr (get kvs name)"
| "read_prop v name = Inr JUndefined"

definition git_dir :: "env \<Rightarrow> string \<Rightarrow> string" where
  "git_dir e dp = path_join [projectDir e, dp]"

text \<open>Clone the repository: the handler that receives the created directory.\<close>

definition clone_step :: "env \<Rightarrow> jsobj \<Rightarrow> string \<Rightarrow> handler" where
  "clone_step e options destPath' s =
     (let s1 = console_log (''Cloning the repository into '' @ destPath' @ ''...'') ''status'' s;
          s2 = s1\<lparr>destPath := Some destPath'\<rparr>
      in run_invoke e (''git clone '' @ to_string (get options ''remote'') @ '' '' @ destPath') s2)"

text \<open>Checkout or create the specified branch.\<close>

definition checkout_step :: "env \<Rightarrow> jsobj \<Rightarrow> string \<Rightarrow> handler" where
  "checkout_step e options dp s =
     (case run_invoke e (''git -C '' @ git_dir e dp @ '' checkout '' @ to_string (get options ''branch'')) s of
        (None, s1) \<Rightarrow>
          (None, console_log (''Checking out branch: '' @ to_string (get options ''branch'') @ ''...'') ''status'' s1)
      | (Some err, s1) \<Rightarrow>
          run_invoke e (''git -C '' @ git_dir e dp @ '' checkout -b '' @ to_string (get options ''branch''))
            (console_log (''Creating new branch: '' @ to_string (get options ''branch'') @ ''...'') ''status'' s1))"

text \<open>Build the site.\<close>

definition buildOptions :: "jsobj \<Rightarrow> jsobj" where
  "buildOptions options =
     [(''symlink'', JBool False),
      (''delPatterns'', get options ''delPatterns''),
      (''excludeLinks'', get options ''excludeLinks''),
      (''addLinks'', get options ''addLinks'')]"

definition build_step :: "env \<Rightarrow> jsobj \<Rightarrow> string \<Rightarrow> handler" where
  "build_step e options dp s =
     (let s1 = console_log ''Building the site...'' ''status'' s
      in if truthy (get options ''folder'')
         then (case js_path_join [JStr dp, get options ''folder''] of
                 Inl err \<Rightarrow> (Some err, s1)
               | Inr buildPath \<Rightarrow> build_create e buildPath (buildOptions options) s1)
         else build_create e dp (buildOptions options) s1)"

text \<open>Copy over additional deployment files.\<close>

definition copy_link :: "env \<Rightarrow> string \<Rightarrow> jsval \<Rightarrow> handler" where
  "copy_link e dp link s =
     (case read_prop link ''src'' of
        Inl err \<Rightarrow> (Some err, s)
      | Inr link_src \<Rightarrow>
     (case js_path_join [JStr (projectDir e), link_src] of
        Inl err \<Rightarrow> (Some err, s)
      | Inr src \<Rightarrow>
     (case read_prop link ''dest'' of
        Inl err \<Rightarrow> (Some err, s)
      | Inr link_dest \<Rightarrow>
     (case js_path_join [JStr dp, link_dest] of
        Inl err \<Rightarrow> (Some err, s)
      | Inr dest \<Rightarrow> chain [fs_removeSync e (Some dest), fs_copySync e src dest] s))))"

definition copy_step :: "env \<Rightarrow> jsobj \<Rightarrow> string \<Rightarrow> handler" where
  "copy_step e options dp s =
     (let s1 = console_log ''Copying deployment files...'' ''status'' s
      in case get options ''deploymentFiles'' of
           JArr links \<Rightarrow> chain (map (copy_link e dp) links) s1
         | _ \<Rightarrow> (Some ''TypeError: options.deploymentFiles.forEach is not a function'', s1))"

text \<open>Clear the current index.\<close>

definition clear_index_step :: "env \<Rightarrow> string \<Rightarrow> handler" where
  "clear_index_step e dp s =
     fs_removeSync e (Some (path_join [projectDir e, dp, ''.git/index'']))
       (console_log ''Clearing the index...'' ''status'' s)"

text \<open>Add all files to the index.\<close>

definition add_step :: "env \<Rightarrow> string \<Rightarrow> handler" where
  "add_step e dp s =
     run_invoke e (''git -C '' @ git_dir e dp @ '' add -A'')
       (console_log ''Adding all files to the index...'' ''status'' s)"

text \<open>Commit changes, with the author when a name is configured.\<close>

definition commit_step :: "env \<Rightarrow> jsobj \<Rightarrow> string \<Rightarrow> handler" where
  \<open>commit_step e options dp s =
     (let s1 = console_log ''Committing changes...'' ''status'' s;
          command = ''git -C '' @ git_dir e dp @ '' commit -m "'' @ to_string (get options ''message'') @ ''"''
      in if truthy (get options ''name'')
         then (let email = (if truthy (get options ''email'') then get options ''email'' else JStr [])
               in run_invoke e
                    (command @ '' --author "'' @ to_string (get options ''name'') @ '' <'' @ to_string email @ ''>"'') s1)
         else run_invoke e command s1)\<close>

text \<open>Push to origin.\<close>

definition push_step :: "env \<Rightarrow> jsobj \<Rightarrow> string \<Rightarrow> handler" where
  "push_step e options dp s =
     run_invoke e (''git -C '' @ git_dir e dp @ '' push origin '' @ to_string (get options ''branch''))
       (console_log (''Pushing branch: '' @ to_string (get options ''branch'') @ ''...'') ''status'' s)"

text \<open>Remove the destination path.\<close>

definition cleanup_step :: "env \<Rightarrow> jsobj \<Rightarrow> string \<Rightarrow> handler" where
  "cleanup_step e options dp s =
     (if \<not> truthy (get options ''debug'')
      then fs_removeSync e (Some dp) (console_log (''Removing the '' @ dp @ '' directory...'') ''status'' s)
      else (None, s))"

definition success_step :: handler where
  "success_step s = (None, console_log ''The site has been successfully deployed!'' ''success'' s)"

text \<open>
  Catch any errors: the handler at the end of the chain. When \<open>removeSync\<close> throws in it,
  the callback is not reached.
\<close>

definition catch_handler :: "env \<Rightarrow> jsobj \<Rightarrow> reason \<Rightarrow> state \<Rightarrow> state" where
  "catch_handler e options err s =
     (if \<not> truthy (get options ''debug'')
      then (case fs_removeSync e (destPath s) s of
              (None, s1) \<Rightarrow> callback err s1
            | (Some thrown, s1) \<Rightarrow> s1)
      else callback err s)"

text \<open>
  The steps from the clone to the push. The handlers after the first read the variable
  \<open>destPath\<close>, which the first has set to the directory it received.
\<close>

definition deploy_steps :: "env \<Rightarrow> jsobj \<Rightarrow> string \<Rightarrow> handler list" where
  "deploy_steps e options destPath' =
     [clone_step e options destPath',
      checkout_step e options destPath',
      build_step e options destPath',
      copy_step e options destPath',
      clear_index_step e destPath',
      add_step e destPath',
      commit_step e options destPath',
      push_step e options destPath']"

text \<open>The whole chain before the final catch: create the directory, then every step.\<close>

definition deploy_chain :: "env \<Rightarrow> jsobj \<Rightarrow> handler" where
  "deploy_chain e options s =
     (case mktemp_createDir e ''aquifer-git-XXXXXXX'' s of
        (Inl err, s1) \<Rightarrow> (Some err, s1)
      | (Inr destPath', s1) \<Rightarrow>
          chain (deploy_steps e options destPath'
                   @ [cleanup_step e options destPath', success_step]) s1)"

definition promise_chain :: "env \<Rightarrow> jsobj \<Rightarrow> state \<Rightarrow> state" where
  "promise_chain e options s =
     (case deploy_chain e options s of
        (None, s1) \<Rightarrow> s1
      | (Some err, s1) \<Rightarrow> catch_handler e options err s1)"

text \<open>The required options: each missing one is reported.\<close>

definition requiredOptions :: "string list" where
  "requiredOptions = [''remote'', ''branch'', ''message'']"

fun check_required :: "jsobj \<Rightarrow> string list \<Rightarrow> bool \<times> state \<Rightarrow> bool \<times> state" where
  "check_required options [] acc = acc"
| \<open>check_required options (name # names) (optionsMissing, s) =
     (if \<not> truthy (get options name)
      then check_required options names
             (True, callback (''"'' @ name @ ''" option is missing. Cannot deploy.'') s)
      else check_required options names (optionsMissing, s))\<close>

text \<open>
  \<open>AquiferGit.run(command, commandOptions, callback)\<close>, with \<open>AquiferGitConfig\<close> the
  static configuration the module was created with. The result is the state when the
  chain has settled: the file system and everything the run did, in order.
\<close>

definition run :: "env \<Rightarrow> jsobj \<Rightarrow> string \<Rightarrow> jsobj \<Rightarrow> filesystem \<Rightarrow> state" where
  "run e aquiferGitConfig command commandOptions fs =
     (let s0 = \<lparr>files = fs, trace = [], destPath = None\<rparr>
      in if command \<noteq> ''deploy-git'' then callback ''Invalid command.'' s0
         else
           (let options = merge_options aquiferGitConfig commandOptions;
                (optionsMissing, s1) = check_required options requiredOptions (False, s0)
            in if optionsMissing then s1
               else if truthy (get options ''email'') \<and> \<not> truthy (get options ''name'')
               then callback ''Name is required for a custom commit signature if the email is provided.'' s1
               else promise_chain e options s1))"

section \<open>Observations and sample environments\<close>

text \<open>The messages the caller's callback received, in order.\<close>

fun callbacks :: "event list \<Rightarrow> string list" where
  "callbacks [] = []"
| "callbacks (Callback m # tr) = m # callbacks tr"
| "callbacks (ev # tr) = callbacks tr"

text \<open>The events that touch the file system or start a process.\<close>

fun side_effect :: "event \<Rightarrow> bool" where
  "side_effect (Log m k) = False"
| "side_effect (Callback m) = False"
| "side_effect ev = True"

text \<open>
  A path that holds one of the characters glob patterns are written with: what the sample
  environments take for \<open>glob.hasMagic\<close>. It takes a path for a pattern rather too
  often than too rarely.
\<close>

definition has_glob_char :: "string \<Rightarrow> bool" where
  "has_glob_char p = list_ex (\<lambda>c. c \<in> set ''*?[]{}()!+@'') p"

text \<open>
  An environment in which every collaborator succeeds and leaves the file system alone:
  the project lies in \<open>/proj\<close>, which is the working directory as well. No pattern
  matches anything there, and a copy into its own source fails with the error the
  library's recursion ends in; no sample run reaches either.
\<close>

definition quiet_env :: env where
  "quiet_env =
     \<lparr>projectDir = ''/proj'', cwd = [''proj''],
      mktemp = (\<lambda>template. Inr ''aquifer-git-abc1234''),
      invoke = (\<lambda>command fs. (None, fs)),
      builder = (\<lambda>buildPath opts fs. (None, fs)),
      hasMagic = has_glob_char,
      glob = (\<lambda>pattern fs. []),
      copy_irregular = (\<lambda>src dest fs. (Some ''ENAMETOOLONG: name too long'', fs))\<rparr>"

definition empty_fs :: filesystem where
  "empty_fs = (\<lambda>k. None)"

definition sample_options :: jsobj where
  "sample_options =
     [(''remote'', JStr ''repo.git''), (''branch'', JStr ''gh-pages''), (''message'', JStr ''deploy'')]"

text \<open>Events of the file-system library.\<close>

fun fs_event :: "event \<Rightarrow> bool" where
  "fs_event (Remove p) = True"
| "fs_event (Copy src dest) = True"
| "fs_event ev = False"

text \<open>
  A handler emits only events that satisfy \<open>Q\<close>: whatever the state it starts from, the
  trace it leaves is the trace it found followed by such events.
\<close>

definition emits :: "(event \<Rightarrow> bool) \<Rightarrow> handler \<Rightarrow> bool" where
  "emits Q h = (\<forall>s. \<exists>evs. trace (snd (h s)) = trace s @ evs \<and> list_all Q evs)"

text \<open>A handler that leaves the variable \<open>destPath\<close> as it found it.\<close>

definition keeps_destPath :: "handler \<Rightarrow> bool" where
  "keeps_destPath h = (\<forall>s. destPath (snd (h s)) = destPath s)"

text \<open>A handler whose first event, whenever it runs, is the status message \<open>msg\<close>.\<close>

definition announces :: "string \<Rightarrow> handler \<Rightarrow> bool" where
  "announces msg h = (\<forall>s. \<exists>evs. trace (snd (h s)) = trace s @ Log msg ''status'' # evs)"

text \<open>
  An environment in which the branch can neither be checked out nor created: both
  commands are rejected, every other collaborator behaves as in the quiet environment.
\<close>

definition failing_checkout_env :: env where
  "failing_checkout_env =
     quiet_env\<lparr>invoke :=
       (\<lambda>command fs.
          if command = ''git -C /proj/aquifer-git-abc1234 checkout gh-pages''
          then (Some ''error: pathspec gh-pages did not match any file(s) known to git'', fs)
          else if command = ''git -C /proj/aquifer-git-abc1234 checkout -b gh-pages''
          then (Some ''fatal: unable to write new index file'', fs)
          else (None, fs))\<rparr>"

text \<open>
  Options that keep the workspace (\<open>debug\<close>) and ask for one deployment file whose
  destination is the workspace itself and whose source does not exist.
\<close>

definition debug_options :: jsobj where
  "debug_options =
     sample_options @
     [(''debug'', JBool True),
      (''deploymentFiles'', JArr [JObj [(''src'', JStr ''missing''), (''dest'', JStr ''.'')]])]"

text \<open>An environment in which the temporary directory cannot be created.\<close>

definition unwritable_env :: env where
  "unwritable_env = quiet_env\<lparr>mktemp := (\<lambda>template. Inl ''EACCES: permission denied, mkdir'')\<rparr>"

section \<open>The copy step on the file system alone\<close>

text \<open>
  The source and destination a deployment file resolves to, or the \<open>TypeError\<close> of
  reading them: the part of \<open>copy_link\<close> that comes before the file-system calls.
\<close>

definition link_paths :: "env \<Rightarrow> string \<Rightarrow> jsval \<Rightarrow> reason + (string \<times> string)" where
  "link_paths e dp link =
     (case read_prop link ''src'' of
        Inl err \<Rightarrow> Inl err
      | Inr link_src \<Rightarrow>
     (case js_path_join [JStr (projectDir e), link_src] of
        Inl err \<Rightarrow> Inl err
      | Inr src \<Rightarrow>
     (case read_prop link ''dest'' of
        Inl err \<Rightarrow> Inl err
      | Inr link_dest \<Rightarrow>
     (case js_path_join [JStr dp, link_dest] of
        Inl err \<Rightarrow> Inl err
      | Inr dest \<Rightarrow> Inr (src, dest)))))"

text \<open>
  What the loop over the deployment files does to the file system, and how it ends:
  the same remove-then-copy sequence as \<open>copy_link\<close> chained over the list, without the
  trace.
\<close>

fun copy_all :: "env \<Rightarrow> string \<Rightarrow> jsval list \<Rightarrow> filesystem \<Rightarrow> reason option \<times> filesystem" where
  "copy_all e dp [] fs = (None, fs)"
| "copy_all e dp (link # links) fs =
     (case link_paths e dp link of
        Inl err \<Rightarrow> (Some err, fs)
      | Inr (src, dest) \<Rightarrow>
          (case copy_path e src dest (remove_path e dest fs) of
             (None, fs2) \<Rightarrow> copy_all e dp links fs2
           | (Some err, fs2) \<Rightarrow> (Some err, fs2)))"

text \<open>The well-formed pairs of the list, in order, and the paths below their destinations
  that the loop writes while it runs from a given file system.\<close>

definition valid_pairs :: "env \<Rightarrow> string \<Rightarrow> jsval list \<Rightarrow> (string \<times> string) list" where
  "valid_pairs e dp links =
     concat (map (\<lambda>link. case link_paths e dp link of Inl err \<Rightarrow> [] | Inr p \<Rightarrow> [p]) links)"

fun touched :: "env \<Rightarrow> string \<Rightarrow> jsval list \<Rightarrow> filesystem \<Rightarrow> path set" where
  "touched e dp [] fs = {}"
| "touched e dp (link # links) fs =
     (case link_paths e dp link of
        Inl err \<Rightarrow> {}
      | Inr (src, dest) \<Rightarrow>
          {k. prefix (resolve (cwd e) dest) k} \<union>
          (case copy_path e src dest (remove_path e dest fs) of
             (None, fs2) \<Rightarrow> touched e dp links fs2
           | (Some err, fs2) \<Rightarrow> {}))"

text \<open>Paths none of which lies inside another or equals it.\<close>

fun apart_list :: "path list \<Rightarrow> bool" where
  "apart_list [] = True"
| "apart_list (d # ds) = ((\<forall>d' \<in> set ds. \<not> prefix d d' \<and> \<not> prefix d' d) \<and> apart_list ds)"

text \<open>
  Pairs that do not interfere: no destination is written as a glob pattern; no destination
  lies inside a source or contains one, so the step never writes what it reads; and no
  two destinations lie inside one another or coincide.
\<close>

definition pairs_apart :: "env \<Rightarrow> string \<Rightarrow> jsval list \<Rightarrow> bool" where
  "pairs_apart e dp links =
     ((\<forall>(src, dest) \<in> set (valid_pairs e dp links). \<not> hasMagic e dest)
      \<and> (\<forall>(src, dest) \<in> set (valid_pairs e dp links). \<forall>(src', dest') \<in> set (valid_pairs e dp links).
            \<not> prefix (resolve (cwd e) dest) (resolve (cwd e) src')
            \<and> \<not> prefix (resolve (cwd e) src') (resolve (cwd e) dest))
      \<and> apart_list (map (\<lambda>(src, dest). resolve (cwd e) dest) (valid_pairs e dp links)))"

text \<open>
  Deployment files that form a chain: the first copies \<open>b\<close> over \<open>a\<close>, the second \<open>c\<close>
  over \<open>b\<close>, both destinations lying beside the workspace; and a project holding three
  files \<open>a\<close>, \<open>b\<close>, \<open>c\<close>.
\<close>

definition chained_files :: jsobj where
  "chained_files =
     [(''deploymentFiles'',
       JArr [JObj [(''src'', JStr ''b''), (''dest'', JStr ''../a'')],
             JObj [(''src'', JStr ''c''), (''dest'', JStr ''../b'')]])]"

definition three_files :: filesystem where
  "three_files =
     (\<lambda>k. if k = [''proj'', ''a''] then Some (File ''A'')
          else if k = [''proj'', ''b''] then Some (File ''B'')
          else if k = [''proj'', ''c''] then Some (File ''C'')
          else None)"

text \<open>
  Deployment files that do not interfere: two files of the project copied to two places
  of the workspace.
\<close>

definition apart_links :: "jsval list" where
  "apart_links =
     [JObj [(''src'', JStr ''a''), (''dest'', JStr ''robots.txt'')],
      JObj [(''src'', JStr ''b''), (''dest'', JStr ''docs/readme'')]]"

definition apart_files :: jsobj where
  "apart_files = [(''deploymentFiles'', JArr apart_links)]"

text \<open>
  Deployment files whose second destination is a pattern matching the first, and an
  environment in which the pattern \<open>x*\<close> matches the file \<open>x1\<close> whenever it exists.
\<close>

definition pattern_files :: jsobj where
  "pattern_files =
     [(''deploymentFiles'',
       JArr [JObj [(''src'', JStr ''a''), (''dest'', JStr ''../x1'')],
             JObj [(''src'', JStr ''b''), (''dest'', JStr ''../x*'')]])]"

definition pattern_env :: env where
  "pattern_env =
     quiet_env\<lparr>glob := (\<lambda>pattern fs. if pattern = ''x*''
                                then filter (\<lambda>k. fs k \<noteq> None) [[''proj'', ''x1'']] else [])\<rparr>"

text \<open>Deployment files whose first destination lies inside the second.\<close>

definition nested_files :: jsobj where
  "nested_files =
     [(''deploymentFiles'',
       JArr [JObj [(''src'', JStr ''b''), (''dest'', JStr ''x/y'')],
             JObj [(''src'', JStr ''c''), (''dest'', JStr ''x'')]])]"

text \<open>A deployment file copied to a destination named as a directory.\<close>

definition slash_files :: jsobj where
  "slash_files =
     [(''deploymentFiles'', JArr [JObj [(''src'', JStr ''a''), (''dest'', JStr ''out/'')]])]"

section \<open>Option merging is by truthiness\<close>

lemma get_update: "get (AList.update k v obj) k' = (if k' = k then v else get obj k')"
  by (simp add: get_def update_conv')

lemma customizer_idem: "customizer (customizer v n) n = customizer v n"
  by (simp add: customizer_def)

lemma get_assign_key:
  "get (assign_key source object key) k =
     (if k = key then customizer (get object key) (get source key) else get object k)"
  by (auto simp: assign_key_def Let_def get_update)

lemma get_foldl_assign_key:
  "get (foldl (assign_key source) object keys) k =
     (if k \<in> set keys then customizer (get object k) (get source k) else get object k)"
  by (induction keys arbitrary: object) (auto simp: get_assign_key customizer_idem)

lemma get_absent: "k \<notin> fst ` set obj \<Longrightarrow> get obj k = JUndefined"
  by (simp add: get_def map_of_eq_None_iff[THEN iffD2])

lemma get_assign_with:
  "get (assign_with object source) k = customizer (get object k) (get source k)"
  by (auto simp: assign_with_def get_foldl_assign_key get_absent customizer_def)

lemma get_merge_options:
  "get (merge_options config cli) name =
     (if truthy (get cli name) then get cli name
      else if truthy (get config name) then get config name
      else get default_options name)"
  by (simp add: merge_options_def get_assign_with customizer_def)

text \<open>
  C10. Option merging is by truthiness. For every option name, the merged value is the
  command line's value when that is truthy, otherwise the static configuration's value when
  that is truthy, otherwise the built-in default: a falsy value never replaces an earlier
  one. So the defaults \<open>deploymentFiles []\<close>, \<open>excludeLinks ['sites/default/files']\<close>,
  \<open>addLinks []\<close> and \<open>delPatterns ['*', '!.git']\<close> survive unless a truthy value replaces
  them, and a falsy command-line value cannot switch off a flag the static configuration
  switched on.
\<close>

theorem merge_truthiness:
  "get (merge_options config cli) name =
     (if truthy (get cli name) then get cli name
      else if truthy (get config name) then get config name
      else get default_options name)
   \<and> get default_options ''deploymentFiles'' = JArr []
   \<and> get default_options ''excludeLinks'' = JArr [JStr ''sites/default/files'']
   \<and> get default_options ''addLinks'' = JArr []
   \<and> get default_options ''delPatterns'' = JArr [JStr ''*'', JStr ''!.git'']"
  by (simp add: get_merge_options) (simp add: default_options_def get_def)

theorem merge_truthiness_witness:
  "get (merge_options [(''debug'', JBool True)] [(''debug'', JBool False)]) ''debug'' = JBool True
   \<and> get (merge_options [(''excludeLinks'', JStr [])] [(''excludeLinks'', JNull)]) ''excludeLinks''
       = JArr [JStr ''sites/default/files'']"
  using merge_truthiness [of "[(''debug'', JBool True)]" "[(''debug'', JBool False)]" "''debug''"]
    merge_truthiness [of "[(''excludeLinks'', JStr [])]" "[(''excludeLinks'', JNull)]" "''excludeLinks''"]
  by (simp add: get_def)

section \<open>Validation of the options\<close>

lemma get_Nil: "get [] k = JUndefined"
  by (simp add: get_def)

lemma get_Cons: "get ((k, v) # kvs) k' = (if k' = k then v else get kvs k')"
  by (simp add: get_def)

lemmas get_eval = get_merge_options get_Nil get_Cons default_options_def

lemma check_required_all:
  \<open>check_required options requiredOptions (False, s) =
     (filter (\<lambda>n. \<not> truthy (get options n)) requiredOptions \<noteq> [],
      s\<lparr>trace := trace s @ map (\<lambda>n. Callback (''"'' @ n @ ''" option is missing. Cannot deploy.''))
                                (filter (\<lambda>n. \<not> truthy (get options n)) requiredOptions)\<rparr>)\<close>
  by (simp add: requiredOptions_def callback_def emit_def)

lemma callbacks_map_Callback: "callbacks (map (\<lambda>n. Callback (f n)) ms) = map f ms"
  by (induction ms) auto

lemma run_missing:
  \<open>filter (\<lambda>n. \<not> truthy (get (merge_options config cli) n)) requiredOptions \<noteq> [] \<Longrightarrow>
   run e config ''deploy-git'' cli fs =
     \<lparr>files = fs,
      trace = map (\<lambda>n. Callback (''"'' @ n @ ''" option is missing. Cannot deploy.''))
                (filter (\<lambda>n. \<not> truthy (get (merge_options config cli) n)) requiredOptions),
      destPath = None\<rparr>\<close>
  by (simp add: run_def Let_def check_required_all del: check_required.simps)

lemma run_valid:
  \<open>filter (\<lambda>n. \<not> truthy (get (merge_options config cli) n)) requiredOptions = [] \<Longrightarrow>
   run e config ''deploy-git'' cli fs =
     (if truthy (get (merge_options config cli) ''email'') \<and> \<not> truthy (get (merge_options config cli) ''name'')
      then \<lparr>files = fs, trace = [Callback ''Name is required for a custom commit signature if the email is provided.''], destPath = None\<rparr>
      else promise_chain e (merge_options config cli) \<lparr>files = fs, trace = [], destPath = None\<rparr>)\<close>
  by (simp add: run_def Let_def check_required_all callback_def emit_def del: check_required.simps)

text \<open>
  C4. Whenever \<open>remote\<close>, \<open>branch\<close> or \<open>message\<close> is falsy after merging, the command
  reports through the callback, every message it passes being the missing-option message
  of an option that is missing, and returns without any effect on the file system or any
  process: no directory is created, no command is invoked, and the file system is as it
  was.
\<close>

theorem missing_option_no_side_effect:
  \<open>\<not> truthy (get (merge_options config cli) ''remote'')
     \<or> \<not> truthy (get (merge_options config cli) ''branch'')
     \<or> \<not> truthy (get (merge_options config cli) ''message'') \<Longrightarrow>
   callbacks (trace (run e config ''deploy-git'' cli fs)) \<noteq> []
   \<and> set (callbacks (trace (run e config ''deploy-git'' cli fs)))
       \<subseteq> (\<lambda>n. ''"'' @ n @ ''" option is missing. Cannot deploy.'')
           ` {n \<in> {''remote'', ''branch'', ''message''}. \<not> truthy (get (merge_options config cli) n)}
   \<and> filter side_effect (trace (run e config ''deploy-git'' cli fs)) = []
   \<and> files (run e config ''deploy-git'' cli fs) = fs\<close>
proof -
  assume a: \<open>\<not> truthy (get (merge_options config cli) ''remote'')
     \<or> \<not> truthy (get (merge_options config cli) ''branch'')
     \<or> \<not> truthy (get (merge_options config cli) ''message'')\<close>
  then have m: "filter (\<lambda>n. \<not> truthy (get (merge_options config cli) n)) requiredOptions \<noteq> []"
    by (auto simp: requiredOptions_def)
  show ?thesis
    unfolding run_missing [OF m]
    using a by (auto simp: requiredOptions_def)
qed

theorem missing_option_no_side_effect_witness:
  \<open>\<not> truthy (get (merge_options [] [(''remote'', JStr ''repo.git''), (''message'', JStr ''deploy'')]) ''branch'')
   \<and> callbacks (trace (run quiet_env [] ''deploy-git'' [(''remote'', JStr ''repo.git''), (''message'', JStr ''deploy'')] empty_fs)) \<noteq> []
   \<and> filter side_effect (trace (run quiet_env [] ''deploy-git'' [(''remote'', JStr ''repo.git''), (''message'', JStr ''deploy'')] empty_fs)) = []
   \<and> files (run quiet_env [] ''deploy-git'' [(''remote'', JStr ''repo.git''), (''message'', JStr ''deploy'')] empty_fs) = empty_fs\<close>
proof -
  have h: \<open>\<not> truthy (get (merge_options [] [(''remote'', JStr ''repo.git''), (''message'', JStr ''deploy'')]) ''branch'')\<close>
    by (simp add: get_eval)
  then show ?thesis
    using missing_option_no_side_effect [of "[]" \<open>[(''remote'', JStr ''repo.git''), (''message'', JStr ''deploy'')]\<close> quiet_env empty_fs]
    by blast
qed

text \<open>
  C9. When required options are missing, the callback is invoked once for each missing
  option, in the order \<open>remote\<close>, \<open>branch\<close>, \<open>message\<close>, so that one failed run can pass
  several messages.
\<close>

theorem missing_option_reported_once_each:
  \<open>filter (\<lambda>n. \<not> truthy (get (merge_options config cli) n)) [''remote'', ''branch'', ''message''] \<noteq> [] \<Longrightarrow>
   callbacks (trace (run e config ''deploy-git'' cli fs)) =
     map (\<lambda>n. ''"'' @ n @ ''" option is missing. Cannot deploy.'')
       (filter (\<lambda>n. \<not> truthy (get (merge_options config cli) n)) [''remote'', ''branch'', ''message''])\<close>
  using run_missing [of config cli e fs]
  by (simp add: requiredOptions_def callbacks_map_Callback del: filter.simps)

theorem missing_option_reported_once_each_witness:
  \<open>callbacks (trace (run quiet_env [(''branch'', JStr ''gh-pages'')] ''deploy-git'' [(''message'', JStr [])] empty_fs)) =
     [''"remote" option is missing. Cannot deploy.'', ''"message" option is missing. Cannot deploy.'']\<close>
  using missing_option_reported_once_each [of \<open>[(''branch'', JStr ''gh-pages'')]\<close> \<open>[(''message'', JStr [])]\<close> quiet_env empty_fs]
  by (simp add: get_eval)




section \<open>What each step adds to the trace\<close>

lemma chain_append:
  "chain (xs @ ys) s = (case chain xs s of (None, s1) \<Rightarrow> chain ys s1 | (Some err, s1) \<Rightarrow> (Some err, s1))"
  by (induction xs arbitrary: s) (auto split: prod.splits option.splits)

lemma emitsI: "(\<And>s. \<exists>evs. trace (snd (h s)) = trace s @ evs \<and> list_all Q evs) \<Longrightarrow> emits Q h"
  by (simp add: emits_def)

lemma emitsD: "emits Q h \<Longrightarrow> \<exists>evs. trace (snd (h s)) = trace s @ evs \<and> list_all Q evs"
  by (simp add: emits_def)

lemma emits_mono: "emits Q h \<Longrightarrow> (\<And>ev. Q ev \<Longrightarrow> Q' ev) \<Longrightarrow> emits Q' h"
  unfolding emits_def by (metis list_all_length list.pred_mono_strong)

lemma emits_chain: "(\<And>h. h \<in> set hs \<Longrightarrow> emits Q h) \<Longrightarrow> emits Q (chain hs)"
proof (induction hs)
  case Nil
  show ?case by (simp add: emits_def)
next
  case (Cons h hs)
  have eh: "emits Q h" and et: "emits Q (chain hs)"
    using Cons by auto
  show ?case
  proof (rule emitsI)
    fix s
    obtain r s1 where hs1: "h s = (r, s1)" by (cases "h s")
    from emitsD [OF eh, of s] hs1 obtain evs1
      where t1: "trace s1 = trace s @ evs1" and q1: "list_all Q evs1" by auto
    from emitsD [OF et, of s1] obtain evs2
      where t2: "trace (snd (chain hs s1)) = trace s1 @ evs2" and q2: "list_all Q evs2" by auto
    show "\<exists>evs. trace (snd (chain (h # hs) s)) = trace s @ evs \<and> list_all Q evs"
    proof (cases r)
      case None
      then have "trace (snd (chain (h # hs) s)) = trace s @ (evs1 @ evs2)"
        using hs1 t1 t2 by simp
      moreover have "list_all Q (evs1 @ evs2)" using q1 q2 by simp
      ultimately show ?thesis by blast
    next
      case (Some err)
      then have "trace (snd (chain (h # hs) s)) = trace s @ evs1"
        using hs1 t1 by simp
      then show ?thesis using q1 by blast
    qed
  qed
qed

lemma keeps_chain: "(\<And>h. h \<in> set hs \<Longrightarrow> keeps_destPath h) \<Longrightarrow> keeps_destPath (chain hs)"
proof (induction hs)
  case Nil
  show ?case by (simp add: keeps_destPath_def)
next
  case (Cons h hs)
  have kh: "keeps_destPath h" and kt: "keeps_destPath (chain hs)"
    using Cons by auto
  show ?case
    unfolding keeps_destPath_def
  proof
    fix s
    obtain r s1 where hs1: "h s = (r, s1)" by (cases "h s")
    have "destPath s1 = destPath s" using kh hs1 by (auto simp: keeps_destPath_def dest: spec [of _ s])
    moreover have "destPath (snd (chain hs s1)) = destPath s1" using kt by (simp add: keeps_destPath_def)
    ultimately show "destPath (snd (chain (h # hs) s)) = destPath s"
      using hs1 by (cases r) auto
  qed
qed

subsection \<open>The primitives\<close>

lemma run_invoke_trace [simp]: "trace (snd (run_invoke e c s)) = trace s @ [Invoke c]"
  by (simp add: run_invoke_def emit_def Let_def split: prod.splits)

lemma run_invoke_destPath [simp]: "destPath (snd (run_invoke e c s)) = destPath s"
  by (simp add: run_invoke_def emit_def Let_def split: prod.splits)

lemma build_create_trace [simp]: "trace (snd (build_create e p opts s)) = trace s @ [Build p opts]"
  by (simp add: build_create_def emit_def Let_def split: prod.splits)

lemma build_create_destPath [simp]: "destPath (snd (build_create e p opts s)) = destPath s"
  by (simp add: build_create_def emit_def Let_def split: prod.splits)

lemma fs_removeSync_trace [simp]: "trace (snd (fs_removeSync e p s)) = trace s @ [Remove p]"
  by (simp add: fs_removeSync_def emit_def Let_def split: option.splits)

lemma fs_removeSync_destPath [simp]: "destPath (snd (fs_removeSync e p s)) = destPath s"
  by (simp add: fs_removeSync_def emit_def Let_def split: option.splits)

lemma fs_copySync_trace [simp]: "trace (snd (fs_copySync e a b s)) = trace s @ [Copy a b]"
  by (simp add: fs_copySync_def emit_def Let_def split: prod.splits)

lemma fs_copySync_destPath [simp]: "destPath (snd (fs_copySync e a b s)) = destPath s"
  by (simp add: fs_copySync_def emit_def Let_def split: prod.splits)

lemma console_log_trace [simp]: "trace (console_log m k s) = trace s @ [Log m k]"
  by (simp add: console_log_def emit_def)

lemma console_log_destPath [simp]: "destPath (console_log m k s) = destPath s"
  by (simp add: console_log_def emit_def)

lemma console_log_files [simp]: "files (console_log m k s) = files s"
  by (simp add: console_log_def emit_def)

lemma callback_trace [simp]: "trace (callback m s) = trace s @ [Callback m]"
  by (simp add: callback_def emit_def)

lemma callback_files [simp]: "files (callback m s) = files s"
  by (simp add: callback_def emit_def)

lemma run_invoke_res:
  "run_invoke e c s = (r, s1) \<Longrightarrow> trace s1 = trace s @ [Invoke c] \<and> destPath s1 = destPath s"
  using run_invoke_trace [of e c s] run_invoke_destPath [of e c s] by simp

subsection \<open>The steps\<close>

lemma clone_step_trace:
  "trace (snd (clone_step e opts dp s)) =
     trace s @ [Log (''Cloning the repository into '' @ dp @ ''...'') ''status'',
                Invoke (''git clone '' @ to_string (get opts ''remote'') @ '' '' @ dp)]"
  by (simp add: clone_step_def Let_def)

lemma clone_step_destPath: "destPath (snd (clone_step e opts dp s)) = Some dp"
  by (simp add: clone_step_def Let_def)

lemma try_else_trace:
  "trace (snd (case run_invoke e c1 s of
                 (None, s1) \<Rightarrow> (None, console_log m1 k s1)
               | (Some err, s1) \<Rightarrow> run_invoke e c2 (console_log m2 k s1))) =
     trace s @ (if fst (run_invoke e c1 s) = None then [Invoke c1, Log m1 k]
                else [Invoke c1, Log m2 k, Invoke c2])"
proof -
  obtain r s1 where h: "run_invoke e c1 s = (r, s1)"
    by (cases "run_invoke e c1 s")
  show ?thesis
    using run_invoke_res [OF h] by (cases r) (simp_all add: h)
qed

lemma try_else_destPath:
  "destPath (snd (case run_invoke e c1 s of
                 (None, s1) \<Rightarrow> (None, console_log m1 k s1)
               | (Some err, s1) \<Rightarrow> run_invoke e c2 (console_log m2 k s1))) = destPath s"
proof -
  obtain r s1 where h: "run_invoke e c1 s = (r, s1)"
    by (cases "run_invoke e c1 s")
  show ?thesis
    using run_invoke_res [OF h] by (cases r) (simp_all add: h)
qed

lemma checkout_step_trace:
  "trace (snd (checkout_step e opts dp s)) =
     trace s @
     (if fst (run_invoke e (''git -C '' @ git_dir e dp @ '' checkout '' @ to_string (get opts ''branch'')) s) = None
      then [Invoke (''git -C '' @ git_dir e dp @ '' checkout '' @ to_string (get opts ''branch'')),
            Log (''Checking out branch: '' @ to_string (get opts ''branch'') @ ''...'') ''status'']
      else [Invoke (''git -C '' @ git_dir e dp @ '' checkout '' @ to_string (get opts ''branch'')),
            Log (''Creating new branch: '' @ to_string (get opts ''branch'') @ ''...'') ''status'',
            Invoke (''git -C '' @ git_dir e dp @ '' checkout -b '' @ to_string (get opts ''branch''))])"
  unfolding checkout_step_def by (rule try_else_trace)

lemma checkout_step_destPath: "destPath (snd (checkout_step e opts dp s)) = destPath s"
  unfolding checkout_step_def by (rule try_else_destPath)

lemma build_step_trace:
  "\<exists>evs. trace (snd (build_step e opts dp s)) = trace s @ Log ''Building the site...'' ''status'' # evs
         \<and> (evs = [] \<or> (\<exists>p. evs = [Build p (buildOptions opts)]))"
  by (simp add: build_step_def Let_def split: sum.splits)

lemma build_step_destPath: "destPath (snd (build_step e opts dp s)) = destPath s"
  by (simp add: build_step_def Let_def split: sum.splits)

lemma emits_remove_copy: "emits fs_event (chain [fs_removeSync e p, fs_copySync e a b])"
  by (rule emits_chain) (auto simp: emits_def)

lemma keeps_remove_copy: "keeps_destPath (chain [fs_removeSync e p, fs_copySync e a b])"
  by (rule keeps_chain) (auto simp: keeps_destPath_def)

lemma copy_link_trace:
  "\<exists>evs. trace (snd (copy_link e dp link s)) = trace s @ evs \<and> list_all fs_event evs"
  by (auto simp: copy_link_def simp del: chain.simps split: sum.splits intro: emitsD [OF emits_remove_copy])

lemma copy_link_destPath: "destPath (snd (copy_link e dp link s)) = destPath s"
  using keeps_remove_copy [unfolded keeps_destPath_def]
  by (auto simp: copy_link_def simp del: chain.simps split: sum.splits)

lemma emits_copy_link: "emits fs_event (copy_link e dp link)"
  by (rule emitsI) (rule copy_link_trace)

lemma emits_copy_links: "emits fs_event (chain (map (copy_link e dp) links))"
  by (rule emits_chain) (auto simp: emits_copy_link)

lemma keeps_copy_links: "keeps_destPath (chain (map (copy_link e dp) links))"
  by (rule keeps_chain) (auto simp: keeps_destPath_def copy_link_destPath)

lemma copy_step_trace:
  "\<exists>evs. trace (snd (copy_step e opts dp s)) = trace s @ Log ''Copying deployment files...'' ''status'' # evs
         \<and> list_all fs_event evs"
proof (cases "get opts ''deploymentFiles''")
  case (JArr links)
  from emitsD [OF emits_copy_links, of e dp links "console_log ''Copying deployment files...'' ''status'' s"]
  show ?thesis
    by (auto simp: copy_step_def Let_def JArr)
qed (simp_all add: copy_step_def Let_def)

lemma copy_step_destPath: "destPath (snd (copy_step e opts dp s)) = destPath s"
proof (cases "get opts ''deploymentFiles''")
  case (JArr links)
  from keeps_copy_links [of e dp links]
  show ?thesis
    by (auto simp: copy_step_def Let_def JArr keeps_destPath_def)
qed (simp_all add: copy_step_def Let_def)

lemma clear_index_step_trace:
  "trace (snd (clear_index_step e dp s)) =
     trace s @ [Log ''Clearing the index...'' ''status'',
                Remove (Some (path_join [projectDir e, dp, ''.git/index'']))]"
  by (simp add: clear_index_step_def)

lemma add_step_trace:
  "trace (snd (add_step e dp s)) =
     trace s @ [Log ''Adding all files to the index...'' ''status'',
                Invoke (''git -C '' @ git_dir e dp @ '' add -A'')]"
  by (simp add: add_step_def)

lemma commit_step_trace:
  \<open>trace (snd (commit_step e opts dp s)) =
     trace s @ [Log ''Committing changes...'' ''status'',
                Invoke (''git -C '' @ git_dir e dp @ '' commit -m "'' @ to_string (get opts ''message'') @ ''"''
                  @ (if truthy (get opts ''name'')
                     then '' --author "'' @ to_string (get opts ''name'') @ '' <''
                          @ (if truthy (get opts ''email'') then to_string (get opts ''email'') else [])
                          @ ''>"''
                     else []))]\<close>
  by (simp add: commit_step_def Let_def)

lemma push_step_trace:
  "trace (snd (push_step e opts dp s)) =
     trace s @ [Log (''Pushing branch: '' @ to_string (get opts ''branch'') @ ''...'') ''status'',
                Invoke (''git -C '' @ git_dir e dp @ '' push origin '' @ to_string (get opts ''branch''))]"
  by (simp add: push_step_def)

lemma cleanup_step_trace:
  "trace (snd (cleanup_step e opts dp s)) =
     trace s @ (if truthy (get opts ''debug'') then []
                else [Log (''Removing the '' @ dp @ '' directory...'') ''status'', Remove (Some dp)])"
  by (simp add: cleanup_step_def)

lemma success_step_trace:
  "trace (snd (success_step s)) = trace s @ [Log ''The site has been successfully deployed!'' ''success'']"
  by (simp add: success_step_def)

lemma other_steps_destPath:
  "destPath (snd (clear_index_step e dp s)) = destPath s"
  "destPath (snd (add_step e dp s)) = destPath s"
  "destPath (snd (commit_step e opts dp s)) = destPath s"
  "destPath (snd (push_step e opts dp s)) = destPath s"
  "destPath (snd (cleanup_step e opts dp s)) = destPath s"
  "destPath (snd (success_step s)) = destPath s"
  by (simp_all add: clear_index_step_def add_step_def commit_step_def push_step_def
      cleanup_step_def success_step_def Let_def)

section \<open>The settled chain\<close>

lemma catch_handler_trace:
  "trace (catch_handler e opts err s) =
     trace s @ (if truthy (get opts ''debug'') then [Callback err]
                else if destPath s = None then [Remove None]
                else [Remove (destPath s), Callback err])"
  by (auto simp: catch_handler_def fs_removeSync_def emit_def Let_def split: option.splits)

lemma mktemp_createDir_Inl:
  "mktemp e t = Inl err \<Longrightarrow>
   mktemp_createDir e t s = (Inl err, s\<lparr>trace := trace s @ [CreateDir t]\<rparr>)"
  by (simp add: mktemp_createDir_def emit_def Let_def)

lemma mktemp_createDir_Inr:
  "mktemp e t = Inr dp \<Longrightarrow>
   mktemp_createDir e t s =
     (Inr dp, s\<lparr>trace := trace s @ [CreateDir t], files := (files s)(resolve (cwd e) dp \<mapsto> Dir)\<rparr>)"
  by (simp add: mktemp_createDir_def emit_def Let_def)

lemma promise_chain_Inl:
  "mktemp e ''aquifer-git-XXXXXXX'' = Inl err \<Longrightarrow>
   promise_chain e opts s =
     catch_handler e opts err (s\<lparr>trace := trace s @ [CreateDir ''aquifer-git-XXXXXXX'']\<rparr>)"
  by (simp add: promise_chain_def deploy_chain_def mktemp_createDir_Inl)

lemma promise_chain_Inr:
  "mktemp e ''aquifer-git-XXXXXXX'' = Inr dp \<Longrightarrow>
   promise_chain e opts s =
     (case chain (deploy_steps e opts dp @ [cleanup_step e opts dp, success_step])
             (s\<lparr>trace := trace s @ [CreateDir ''aquifer-git-XXXXXXX''],
                files := (files s)(resolve (cwd e) dp \<mapsto> Dir)\<rparr>) of
        (None, s1) \<Rightarrow> s1
      | (Some err, s1) \<Rightarrow> catch_handler e opts err s1)"
  by (simp add: promise_chain_def deploy_chain_def mktemp_createDir_Inr del: chain.simps)

text \<open>The result of a run that passes validation\<close>

lemma run_cases:
  obtains (invalid) ms where "trace (run e config ''deploy-git'' cli fs) = map Callback ms"
      "files (run e config ''deploy-git'' cli fs) = fs"
  | (started) "run e config ''deploy-git'' cli fs =
        promise_chain e (merge_options config cli) \<lparr>files = fs, trace = [], destPath = None\<rparr>"
      "truthy (get (merge_options config cli) ''remote'')"
      "truthy (get (merge_options config cli) ''branch'')"
      "truthy (get (merge_options config cli) ''message'')"
      "truthy (get (merge_options config cli) ''email'') \<longrightarrow> truthy (get (merge_options config cli) ''name'')"
proof (cases \<open>filter (\<lambda>n. \<not> truthy (get (merge_options config cli) n)) requiredOptions = []\<close>)
  case True
  then have req: "truthy (get (merge_options config cli) ''remote'')"
      "truthy (get (merge_options config cli) ''branch'')"
      "truthy (get (merge_options config cli) ''message'')"
    by (auto simp: requiredOptions_def split: if_splits)
  show ?thesis
  proof (cases "truthy (get (merge_options config cli) ''email'') \<and> \<not> truthy (get (merge_options config cli) ''name'')")
    case True
    with run_valid [OF \<open>filter _ _ = []\<close>, of e fs]
    have "trace (run e config ''deploy-git'' cli fs) = map Callback [''Name is required for a custom commit signature if the email is provided.'']"
      "files (run e config ''deploy-git'' cli fs) = fs"
      by simp_all
    then show ?thesis by (rule invalid)
  next
    case False
    with run_valid [OF \<open>filter _ _ = []\<close>, of e fs] req show ?thesis
      by (intro started) auto
  qed
next
  case False
  from run_missing [OF False, of e fs]
  have "trace (run e config ''deploy-git'' cli fs) =
      map Callback (map (\<lambda>n. [CHR 0x22] @ n @ [CHR 0x22] @ '' option is missing. Cannot deploy.'')
          (filter (\<lambda>n. \<not> truthy (get (merge_options config cli) n)) requiredOptions))"
    "files (run e config ''deploy-git'' cli fs) = fs"
    by simp_all
  then show ?thesis by (rule invalid)
qed

lemma settle_extends:
  assumes hs: "\<And>h. h \<in> set hs \<Longrightarrow> emits Q h"
    and cb: "\<And>m. Q (Callback m)" and rm: "\<And>p. Q (Remove p)"
  shows "\<exists>evs. trace (case chain hs s of (None, s1) \<Rightarrow> s1
                               | (Some err, s1) \<Rightarrow> catch_handler e opts err s1) = trace s @ evs
               \<and> list_all Q evs"
proof -
  obtain r s1 where c: "chain hs s = (r, s1)" by (cases "chain hs s")
  from emitsD [OF emits_chain [of hs Q], of s] hs c obtain evs
    where t: "trace s1 = trace s @ evs" and q: "list_all Q evs" by auto
  show ?thesis
  proof (cases r)
    case None
    then show ?thesis using c t q by auto
  next
    case (Some err)
    then show ?thesis using c t q cb rm
      by (auto simp: catch_handler_trace)
  qed
qed

lemma list_all_mono: "list_all P xs \<Longrightarrow> (\<And>x. P x \<Longrightarrow> Q x) \<Longrightarrow> list_all Q xs"
  by (induction xs) auto

lemma emits_clone_step:
  "Q (Log (''Cloning the repository into '' @ dp @ ''...'') ''status'') \<Longrightarrow>
   Q (Invoke (''git clone '' @ to_string (get opts ''remote'') @ '' '' @ dp)) \<Longrightarrow>
   emits Q (clone_step e opts dp)"
  by (rule emitsI) (simp add: clone_step_trace)

lemma emits_checkout_step:
  "Q (Invoke (''git -C '' @ git_dir e dp @ '' checkout '' @ to_string (get opts ''branch''))) \<Longrightarrow>
   Q (Log (''Checking out branch: '' @ to_string (get opts ''branch'') @ ''...'') ''status'') \<Longrightarrow>
   Q (Log (''Creating new branch: '' @ to_string (get opts ''branch'') @ ''...'') ''status'') \<Longrightarrow>
   Q (Invoke (''git -C '' @ git_dir e dp @ '' checkout -b '' @ to_string (get opts ''branch''))) \<Longrightarrow>
   emits Q (checkout_step e opts dp)"
  by (rule emitsI) (simp add: checkout_step_trace)

lemma emits_build_step:
  "Q (Log ''Building the site...'' ''status'') \<Longrightarrow> (\<And>p. Q (Build p (buildOptions opts))) \<Longrightarrow>
   emits Q (build_step e opts dp)"
  by (rule emitsI) (use build_step_trace in fastforce)

lemma emits_copy_step:
  assumes "Q (Log ''Copying deployment files...'' ''status'')" and "\<And>ev. fs_event ev \<Longrightarrow> Q ev"
  shows "emits Q (copy_step e opts dp)"
proof (rule emitsI)
  fix s
  from copy_step_trace [of e opts dp s] obtain evs where
    t: "trace (snd (copy_step e opts dp s)) = trace s @ Log ''Copying deployment files...'' ''status'' # evs"
    and f: "list_all fs_event evs" by blast
  have "list_all Q (Log ''Copying deployment files...'' ''status'' # evs)"
    using list_all_mono [OF f, of Q] assms by simp
  then show "\<exists>evs. trace (snd (copy_step e opts dp s)) = trace s @ evs \<and> list_all Q evs"
    using t by blast
qed

lemma emits_clear_index_step:
  "Q (Log ''Clearing the index...'' ''status'') \<Longrightarrow> (\<And>p. Q (Remove p)) \<Longrightarrow>
   emits Q (clear_index_step e dp)"
  by (rule emitsI) (simp add: clear_index_step_trace)

lemma emits_add_step:
  "Q (Log ''Adding all files to the index...'' ''status'') \<Longrightarrow>
   Q (Invoke (''git -C '' @ git_dir e dp @ '' add -A'')) \<Longrightarrow>
   emits Q (add_step e dp)"
  by (rule emitsI) (simp add: add_step_trace)

lemma emits_commit_step:
  \<open>Q (Log ''Committing changes...'' ''status'') \<Longrightarrow>
   (\<And>rest. Q (Invoke (''git -C '' @ git_dir e dp @ '' commit -m "'' @ rest))) \<Longrightarrow>
   emits Q (commit_step e opts dp)\<close>
  by (rule emitsI) (simp add: commit_step_trace)

lemma emits_push_step:
  "Q (Log (''Pushing branch: '' @ to_string (get opts ''branch'') @ ''...'') ''status'') \<Longrightarrow>
   Q (Invoke (''git -C '' @ git_dir e dp @ '' push origin '' @ to_string (get opts ''branch''))) \<Longrightarrow>
   emits Q (push_step e opts dp)"
  by (rule emitsI) (simp add: push_step_trace)

lemma emits_cleanup_step:
  "Q (Log (''Removing the '' @ dp @ '' directory...'') ''status'') \<Longrightarrow> (\<And>p. Q (Remove p)) \<Longrightarrow>
   emits Q (cleanup_step e opts dp)"
  by (rule emitsI) (simp add: cleanup_step_trace)

lemma emits_success_step:
  "Q (Log ''The site has been successfully deployed!'' ''success'') \<Longrightarrow> emits Q success_step"
  by (rule emitsI) (simp add: success_step_trace)

lemma emits_any: "(\<And>s. \<exists>evs. trace (snd (h s)) = trace s @ evs) \<Longrightarrow> emits (\<lambda>ev. True) h"
  by (rule emitsI) (simp add: list_all_iff)

lemma emits_True_steps:
  "h \<in> set (deploy_steps e opts dp @ [cleanup_step e opts dp, success_step]) \<Longrightarrow> emits (\<lambda>ev. True) h"
  unfolding deploy_steps_def
  by (auto intro: emits_clone_step emits_checkout_step emits_build_step emits_copy_step
      emits_clear_index_step emits_add_step emits_commit_step emits_push_step
      emits_cleanup_step emits_success_step)

lemma emits_steps_before_commit:
  assumes "h \<in> set [clone_step e opts dp, checkout_step e opts dp, build_step e opts dp,
                     copy_step e opts dp, clear_index_step e dp, add_step e dp]"
  shows "emits (\<lambda>ev. ev \<noteq> Log ''Committing changes...'' ''status'') h"
  using assms
  by (auto intro!: emits_clone_step emits_checkout_step emits_build_step emits_copy_step
      emits_clear_index_step emits_add_step)

section \<open>Evaluating a run in the quiet environment\<close>

lemma quiet_invoke: "run_invoke quiet_env c s = (None, emit (Invoke c) s)"
  by (simp add: run_invoke_def quiet_env_def emit_def Let_def)

lemma quiet_build: "build_create quiet_env p opts s = (None, emit (Build p opts) s)"
  by (simp add: build_create_def quiet_env_def emit_def Let_def)

lemma quiet_mktemp:
  "mktemp_createDir quiet_env t s =
     (Inr ''aquifer-git-abc1234'',
      (emit (CreateDir t) s)\<lparr>files := (files s)([''proj'', ''aquifer-git-abc1234''] \<mapsto> Dir)\<rparr>)"
  by (simp add: mktemp_createDir_def quiet_env_def emit_def Let_def resolve_def isAbsolute_def)

lemma removeSync_Some:
  "fs_removeSync e (Some q) s =
     (None, (emit (Remove (Some q)) s)\<lparr>files := remove_path e q (files s)\<rparr>)"
  by (simp add: fs_removeSync_def emit_def Let_def)

lemma copySync_eq:
  "fs_copySync e src dest s =
     (fst (copy_path e src dest (files s)),
      (emit (Copy src dest) s)\<lparr>files := snd (copy_path e src dest (files s))\<rparr>)"
  by (simp add: fs_copySync_def emit_def Let_def split: prod.splits)

lemma fold_delete_tree_None: "fs k = None \<Longrightarrow> fold delete_tree ps fs k = None"
  by (induction ps arbitrary: fs) (simp_all add: delete_tree_def)

text \<open>Whatever the pattern matches, nothing is left at the path that was removed.\<close>

lemma remove_path_gone: "remove_path e q fs (resolve (cwd e) q) = None"
  by (simp add: remove_path_def fold_delete_tree_None delete_tree_def)

lemma remove_path_plain:
  "\<not> hasMagic e q \<Longrightarrow> remove_path e q fs = delete_tree (resolve (cwd e) q) fs"
  by (simp add: remove_path_def)

lemma quiet_hasMagic: "hasMagic quiet_env q = list_ex (\<lambda>c. c \<in> set ''*?[]{}()!+@'') q"
  by (simp add: quiet_env_def has_glob_char_def)

lemma quiet_remove:
  "\<not> list_ex (\<lambda>c. c \<in> set ''*?[]{}()!+@'') q \<Longrightarrow>
   remove_path quiet_env q fs = delete_tree (resolve [''proj''] q) fs"
  by (simp add: remove_path_def quiet_env_def has_glob_char_def)

lemma emit_simps [simp]:
  "trace (emit ev s) = trace s @ [ev]" "files (emit ev s) = files s" "destPath (emit ev s) = destPath s"
  by (simp_all add: emit_def)

lemmas step_defs = clone_step_def checkout_step_def build_step_def copy_step_def copy_link_def
  clear_index_step_def add_step_def commit_step_def push_step_def cleanup_step_def success_step_def
  deploy_steps_def deploy_chain_def promise_chain_def catch_handler_def

lemmas path_eval = path_join_def js_path_join_def normalize_def isAbsolute_def resolve_def git_dir_def

lemmas quiet_eval = quiet_invoke quiet_build quiet_mktemp removeSync_Some quiet_remove console_log_def callback_def
  buildOptions_def

lemma quiet_fields [simp]: "projectDir quiet_env = ''/proj''" "cwd quiet_env = [''proj'']"
  by (simp_all add: quiet_env_def)

lemmas run_eval = run_def Let_def requiredOptions_def get_eval sample_options_def step_defs
  path_eval quiet_eval

section \<open>The commit\<close>

text \<open>
  C6. Whenever a run reaches the commit step, what the step issues, right after its status
  message, is one command: \<open>git -C <dir> commit -m "<message>"\<close> with the configured
  message, followed by \<open>--author "<name> <<email>>"\<close> exactly when \<open>name\<close> is set, the
  email being the empty string when it is unset; with \<open>name\<close> unset the command ends after
  the message.
\<close>

theorem commit_carries_message_and_author:
  assumes opts: "opts = merge_options config cli"
    and reached: "Log ''Committing changes...'' ''status'' \<in> set (trace (run e config ''deploy-git'' cli fs))"
  shows \<open>\<exists>dp before after.
      mktemp e ''aquifer-git-XXXXXXX'' = Inr dp
    \<and> trace (run e config ''deploy-git'' cli fs) =
        before @
        [Log ''Committing changes...'' ''status'',
         Invoke (''git -C '' @ path_join [projectDir e, dp] @ '' commit -m "'' @ to_string (get opts ''message'') @ ''"''
                 @ (if truthy (get opts ''name'')
                    then '' --author "'' @ to_string (get opts ''name'') @ '' <''
                         @ (if truthy (get opts ''email'') then to_string (get opts ''email'') else [])
                         @ ''>"''
                    else []))]
        @ after\<close>
proof -
  let ?L = "Log ''Committing changes...'' ''status''"
  let ?r = "run e config ''deploy-git'' cli fs"
  let ?s0 = "\<lparr>files = fs, trace = [], destPath = None\<rparr>"
  have started: "?r = promise_chain e opts ?s0"
  proof (cases rule: run_cases [of e config cli fs])
    case (invalid ms)
    with reached show ?thesis by auto
  next
    case started
    then show ?thesis by (simp add: opts)
  qed
  show ?thesis
  proof (cases "mktemp e ''aquifer-git-XXXXXXX''")
    case (Inl err)
    then have "trace ?r = [CreateDir ''aquifer-git-XXXXXXX''] @
        (if truthy (get opts ''debug'') then [Callback err] else [Remove None])"
      by (simp add: started promise_chain_Inl catch_handler_trace)
    with reached show ?thesis by (auto split: if_splits)
  next
    case (Inr dp)
    let ?s1 = "?s0\<lparr>trace := trace ?s0 @ [CreateDir ''aquifer-git-XXXXXXX''],
                    files := (files ?s0)(resolve (cwd e) dp \<mapsto> Dir)\<rparr>"
    let ?pre = "[clone_step e opts dp, checkout_step e opts dp, build_step e opts dp,
                 copy_step e opts dp, clear_index_step e dp, add_step e dp]"
    let ?post = "[push_step e opts dp, cleanup_step e opts dp, success_step]"
    let ?settle = "\<lambda>x. case x of (None, s1) \<Rightarrow> s1 | (Some err, s1) \<Rightarrow> catch_handler e opts err s1"
    have split: "deploy_steps e opts dp @ [cleanup_step e opts dp, success_step]
        = ?pre @ (commit_step e opts dp # ?post)"
      by (simp add: deploy_steps_def)
    have r: "?r = ?settle (chain (?pre @ (commit_step e opts dp # ?post)) ?s1)"
      unfolding started promise_chain_Inr [OF Inr] split ..
    obtain r6 s6 where c6: "chain ?pre ?s1 = (r6, s6)" by (cases "chain ?pre ?s1")
    from emitsD [OF emits_chain [of ?pre "\<lambda>ev. ev \<noteq> ?L"], of ?s1] emits_steps_before_commit c6
    obtain evs6 where t6: "trace s6 = trace ?s1 @ evs6" and q6: "list_all (\<lambda>ev. ev \<noteq> ?L) evs6"
      by auto
    have n6: "?L \<notin> set (trace s6)"
      using t6 q6 by (auto simp: list_all_iff)
    show ?thesis
    proof (cases r6)
      case (Some err)
      then have "?r = catch_handler e opts err s6"
        unfolding r chain_append c6 by simp
      then have "?L \<notin> set (trace ?r)"
        using n6 by (simp add: catch_handler_trace)
      with reached show ?thesis by simp
    next
      case None
      obtain r7 s7 where c7: "commit_step e opts dp s6 = (r7, s7)"
        by (cases "commit_step e opts dp s6")
      let ?I = \<open>Invoke (''git -C '' @ path_join [projectDir e, dp] @ '' commit -m "'' @ to_string (get opts ''message'') @ ''"''
                 @ (if truthy (get opts ''name'')
                    then '' --author "'' @ to_string (get opts ''name'') @ '' <''
                         @ (if truthy (get opts ''email'') then to_string (get opts ''email'') else [])
                         @ ''>"''
                    else []))\<close>
      have t7: "trace s7 = trace s6 @ [?L, ?I]"
        using commit_step_trace [of e opts dp s6] c7 by (simp add: git_dir_def)
      have "\<exists>evs. trace ?r = trace s7 @ evs"
      proof (cases r7)
        case (Some err)
        then have "?r = catch_handler e opts err s7"
          unfolding r chain_append c6 using None c7 by simp
        then show ?thesis by (simp add: catch_handler_trace)
      next
        case None7: None
        then have "?r = ?settle (chain ?post s7)"
          unfolding r chain_append c6 using None c7 by simp
        moreover have "\<And>h. h \<in> set ?post \<Longrightarrow> emits (\<lambda>ev. True) h"
          using emits_True_steps [of _ e opts dp] by (auto simp: deploy_steps_def)
        ultimately show ?thesis
          using settle_extends [where hs = ?post and Q = "\<lambda>ev. True" and s = s7 and e = e and opts = opts]
          by auto
      qed
      then obtain evs where "trace ?r = trace s6 @ [?L, ?I] @ evs"
        using t7 by auto
      with Inr show ?thesis by blast
    qed
  qed
qed

theorem commit_carries_message_and_author_witness:
  \<open>Invoke ''git -C /proj/aquifer-git-abc1234 commit -m "deploy" --author "Bob <>"''
     \<in> set (trace (run quiet_env [] ''deploy-git'' (sample_options @ [(''name'', JStr ''Bob'')]) empty_fs))\<close>
proof -
  let ?cli = "sample_options @ [(''name'', JStr ''Bob'')]"
  have reached: "Log ''Committing changes...'' ''status''
      \<in> set (trace (run quiet_env [] ''deploy-git'' ?cli empty_fs))"
    by (simp add: run_eval)
  from commit_carries_message_and_author [OF refl reached]
  obtain dp before after where
    dp: "mktemp quiet_env ''aquifer-git-XXXXXXX'' = Inr dp" and
    t: \<open>trace (run quiet_env [] ''deploy-git'' ?cli empty_fs) =
        before @
        [Log ''Committing changes...'' ''status'',
         Invoke (''git -C '' @ path_join [projectDir quiet_env, dp] @ '' commit -m "''
                 @ to_string (get (merge_options [] ?cli) ''message'') @ ''"''
                 @ (if truthy (get (merge_options [] ?cli) ''name'')
                    then '' --author "'' @ to_string (get (merge_options [] ?cli) ''name'') @ '' <''
                         @ (if truthy (get (merge_options [] ?cli) ''email'')
                            then to_string (get (merge_options [] ?cli) ''email'') else [])
                         @ ''>"''
                    else []))]
        @ after\<close>
    by blast
  from dp have "dp = ''aquifer-git-abc1234''"
    by (simp add: quiet_env_def)
  then have \<open>''git -C '' @ path_join [projectDir quiet_env, dp] @ '' commit -m "''
                 @ to_string (get (merge_options [] ?cli) ''message'') @ ''"''
                 @ (if truthy (get (merge_options [] ?cli) ''name'')
                    then '' --author "'' @ to_string (get (merge_options [] ?cli) ''name'') @ '' <''
                         @ (if truthy (get (merge_options [] ?cli) ''email'')
                            then to_string (get (merge_options [] ?cli) ''email'') else [])
                         @ ''>"''
                    else [])
      = ''git -C /proj/aquifer-git-abc1234 commit -m "deploy" --author "Bob <>"''\<close>
    by (simp add: get_eval sample_options_def path_eval)
  with t show ?thesis by simp
qed

section \<open>The order of messages and actions\<close>

lemma chain_Cons_None:
  "chain (h # hs) s = (None, s') \<Longrightarrow> \<exists>s1. h s = (None, s1) \<and> chain hs s1 = (None, s')"
  by (auto split: prod.splits option.splits)

lemma chain_snoc_total:
  assumes "\<And>s. fst (h s) = None" and "chain (hs @ [h]) s = (Some err, s')"
  shows "chain hs s = (Some err, s')"
proof -
  obtain r s1 where c: "chain hs s = (r, s1)" by (cases "chain hs s")
  show ?thesis
  proof (cases r)
    case None
    obtain r2 s2 where h: "h s1 = (r2, s2)" by (cases "h s1")
    with assms(1) [of s1] have "r2 = None" by simp
    with assms(2) c None h show ?thesis by (simp add: chain_append)
  next
    case (Some a)
    with assms(2) c show ?thesis by (simp add: chain_append)
  qed
qed

lemma build_create_res:
  "build_create e p opts s = (r, s1) \<Longrightarrow> trace s1 = trace s @ [Build p opts] \<and> destPath s1 = destPath s"
  using build_create_trace [of e p opts s] build_create_destPath [of e p opts s] by simp

lemma build_step_None:
  "build_step e opts dp s = (None, s') \<Longrightarrow>
   \<exists>p. trace s' = trace s @ [Log ''Building the site...'' ''status'', Build p (buildOptions opts)]"
  by (auto simp: build_step_def Let_def split: sum.splits if_splits dest!: build_create_res)

lemma clone_step_res:
  "clone_step e opts dp s = (r, s') \<Longrightarrow>
   trace s' = trace s @ [Log (''Cloning the repository into '' @ dp @ ''...'') ''status'',
                Invoke (''git clone '' @ to_string (get opts ''remote'') @ '' '' @ dp)]"
  using clone_step_trace [of e opts dp s] by simp

lemma checkout_step_res:
  "checkout_step e opts dp s = (r, s') \<Longrightarrow>
   trace s' = trace s @
     (if fst (run_invoke e (''git -C '' @ git_dir e dp @ '' checkout '' @ to_string (get opts ''branch'')) s) = None
      then [Invoke (''git -C '' @ git_dir e dp @ '' checkout '' @ to_string (get opts ''branch'')),
            Log (''Checking out branch: '' @ to_string (get opts ''branch'') @ ''...'') ''status'']
      else [Invoke (''git -C '' @ git_dir e dp @ '' checkout '' @ to_string (get opts ''branch'')),
            Log (''Creating new branch: '' @ to_string (get opts ''branch'') @ ''...'') ''status'',
            Invoke (''git -C '' @ git_dir e dp @ '' checkout -b '' @ to_string (get opts ''branch''))])"
  using checkout_step_trace [of e opts dp s] by simp

lemma clear_index_step_res:
  "clear_index_step e dp s = (r, s') \<Longrightarrow>
   trace s' = trace s @ [Log ''Clearing the index...'' ''status'',
                Remove (Some (path_join [projectDir e, dp, ''.git/index'']))]"
  using clear_index_step_trace [of e dp s] by simp

lemma add_step_res:
  "add_step e dp s = (r, s') \<Longrightarrow>
   trace s' = trace s @ [Log ''Adding all files to the index...'' ''status'',
                Invoke (''git -C '' @ git_dir e dp @ '' add -A'')]"
  using add_step_trace [of e dp s] by simp

lemma commit_step_res:
  \<open>commit_step e opts dp s = (r, s') \<Longrightarrow>
   trace s' = trace s @ [Log ''Committing changes...'' ''status'',
                Invoke (''git -C '' @ git_dir e dp @ '' commit -m "'' @ to_string (get opts ''message'') @ ''"''
                  @ (if truthy (get opts ''name'')
                     then '' --author "'' @ to_string (get opts ''name'') @ '' <''
                          @ (if truthy (get opts ''email'') then to_string (get opts ''email'') else [])
                          @ ''>"''
                     else []))]\<close>
  using commit_step_trace [of e opts dp s] by simp

lemma push_step_res:
  "push_step e opts dp s = (r, s') \<Longrightarrow>
   trace s' = trace s @ [Log (''Pushing branch: '' @ to_string (get opts ''branch'') @ ''...'') ''status'',
                Invoke (''git -C '' @ git_dir e dp @ '' push origin '' @ to_string (get opts ''branch''))]"
  using push_step_trace [of e opts dp s] by simp

lemma cleanup_step_res:
  "cleanup_step e opts dp s = (r, s') \<Longrightarrow>
   trace s' = trace s @ (if truthy (get opts ''debug'') then []
                else [Log (''Removing the '' @ dp @ '' directory...'') ''status'', Remove (Some dp)])"
  using cleanup_step_trace [of e opts dp s] by simp

lemma success_step_res:
  "success_step s = (r, s') \<Longrightarrow>
   trace s' = trace s @ [Log ''The site has been successfully deployed!'' ''success'']"
  using success_step_trace [of s] by simp

lemma emits_not_success:
  assumes "h \<in> set (deploy_steps e opts dp @ [cleanup_step e opts dp])"
  shows "emits (\<lambda>ev. ev \<noteq> Log ''The site has been successfully deployed!'' ''success'') h"
  using assms unfolding deploy_steps_def
  by (auto intro!: emits_clone_step emits_checkout_step emits_build_step emits_copy_step
      emits_clear_index_step emits_add_step emits_commit_step emits_push_step emits_cleanup_step)

lemma successful_run_trace:
  assumes opts: "opts = merge_options config cli"
  shows \<open>(Log ''The site has been successfully deployed!'' ''success''
            \<in> set (trace (run e config ''deploy-git'' cli fs)) \<longrightarrow>
          (\<exists>dp mid buildPath copies.
              mktemp e ''aquifer-git-XXXXXXX'' = Inr dp
            \<and> (mid = [Log (''Checking out branch: '' @ to_string (get opts ''branch'') @ ''...'') ''status'']
               \<or> mid = [Log (''Creating new branch: '' @ to_string (get opts ''branch'') @ ''...'') ''status'',
                         Invoke (''git -C '' @ git_dir e dp @ '' checkout -b '' @ to_string (get opts ''branch''))])
            \<and> list_all fs_event copies
            \<and> trace (run e config ''deploy-git'' cli fs) =
                [CreateDir ''aquifer-git-XXXXXXX'',
                 Log (''Cloning the repository into '' @ dp @ ''...'') ''status'',
                 Invoke (''git clone '' @ to_string (get opts ''remote'') @ '' '' @ dp),
                 Invoke (''git -C '' @ git_dir e dp @ '' checkout '' @ to_string (get opts ''branch''))]
                @ mid @
                [Log ''Building the site...'' ''status'',
                 Build buildPath (buildOptions opts),
                 Log ''Copying deployment files...'' ''status'']
                @ copies @
                [Log ''Clearing the index...'' ''status'',
                 Remove (Some (path_join [projectDir e, dp, ''.git/index''])),
                 Log ''Adding all files to the index...'' ''status'',
                 Invoke (''git -C '' @ git_dir e dp @ '' add -A''),
                 Log ''Committing changes...'' ''status'',
                 Invoke (''git -C '' @ git_dir e dp @ '' commit -m "'' @ to_string (get opts ''message'') @ ''"''
                  @ (if truthy (get opts ''name'')
                     then '' --author "'' @ to_string (get opts ''name'') @ '' <''
                          @ (if truthy (get opts ''email'') then to_string (get opts ''email'') else [])
                          @ ''>"''
                     else [])),
                 Log (''Pushing branch: '' @ to_string (get opts ''branch'') @ ''...'') ''status'',
                 Invoke (''git -C '' @ git_dir e dp @ '' push origin '' @ to_string (get opts ''branch''))]
                @ (if truthy (get opts ''debug'') then []
                   else [Log (''Removing the '' @ dp @ '' directory...'') ''status'', Remove (Some dp)])
                @ [Log ''The site has been successfully deployed!'' ''success'']))\<close>
    (is "_ \<longrightarrow> (\<exists>dp mid buildPath copies. ?P dp mid buildPath copies)")
proof
  let ?S = "Log ''The site has been successfully deployed!'' ''success''"
  let ?r = "run e config ''deploy-git'' cli fs"
  let ?s0 = "\<lparr>files = fs, trace = [], destPath = None\<rparr>"
  assume success: "?S \<in> set (trace ?r)"
  have started: "?r = promise_chain e opts ?s0"
  proof (cases rule: run_cases [of e config cli fs])
    case (invalid ms)
    with success show ?thesis by auto
  next
    case started
    then show ?thesis by (simp add: opts)
  qed
  show "\<exists>dp mid buildPath copies. ?P dp mid buildPath copies"
  proof (cases "mktemp e ''aquifer-git-XXXXXXX''")
    case (Inl err)
    then have "trace ?r = [CreateDir ''aquifer-git-XXXXXXX''] @
        (if truthy (get opts ''debug'') then [Callback err] else [Remove None])"
      by (simp add: started promise_chain_Inl catch_handler_trace)
    with success show ?thesis by (auto split: if_splits)
  next
    case (Inr dp)
    let ?s1 = "?s0\<lparr>trace := trace ?s0 @ [CreateDir ''aquifer-git-XXXXXXX''],
                    files := (files ?s0)(resolve (cwd e) dp \<mapsto> Dir)\<rparr>"
    let ?all = "deploy_steps e opts dp @ [cleanup_step e opts dp, success_step]"
    have r: "?r = (case chain ?all ?s1 of (None, s1) \<Rightarrow> s1 | (Some err, s1) \<Rightarrow> catch_handler e opts err s1)"
      unfolding started promise_chain_Inr [OF Inr] ..
    obtain rr sF where c: "chain ?all ?s1 = (rr, sF)" by (cases "chain ?all ?s1")
    have ok: "rr = None"
    proof (cases rr)
      case (Some err)
      have "chain ((deploy_steps e opts dp @ [cleanup_step e opts dp]) @ [success_step]) ?s1 = (Some err, sF)"
        using c Some by simp
      then have c': "chain (deploy_steps e opts dp @ [cleanup_step e opts dp]) ?s1 = (Some err, sF)"
        by (rule chain_snoc_total [rotated]) (simp add: success_step_def)
      from emitsD [OF emits_chain [of "deploy_steps e opts dp @ [cleanup_step e opts dp]" "\<lambda>ev. ev \<noteq> ?S"], of ?s1]
        emits_not_success [of _ e opts dp] c'
      obtain evs where "trace sF = trace ?s1 @ evs" and "list_all (\<lambda>ev. ev \<noteq> ?S) evs"
        by auto
      then have "?S \<notin> set (trace sF)" by (auto simp: list_all_iff)
      moreover have "?r = catch_handler e opts err sF" using r c Some by simp
      ultimately have "?S \<notin> set (trace ?r)" by (simp add: catch_handler_trace)
      with success show ?thesis by simp
    qed simp
    then have rF: "?r = sF" using r c by simp
    from c ok have "chain [clone_step e opts dp, checkout_step e opts dp, build_step e opts dp,
        copy_step e opts dp, clear_index_step e dp, add_step e dp, commit_step e opts dp,
        push_step e opts dp, cleanup_step e opts dp, success_step] ?s1 = (None, sF)"
      by (simp add: deploy_steps_def)
    then obtain s2 s3 s4 s5 s6 s7 s8 s9 s10 where
      h: "clone_step e opts dp ?s1 = (None, s2)" "checkout_step e opts dp s2 = (None, s3)"
        "build_step e opts dp s3 = (None, s4)" "copy_step e opts dp s4 = (None, s5)"
        "clear_index_step e dp s5 = (None, s6)" "add_step e dp s6 = (None, s7)"
        "commit_step e opts dp s7 = (None, s8)" "push_step e opts dp s8 = (None, s9)"
        "cleanup_step e opts dp s9 = (None, s10)" "success_step s10 = (None, sF)"
      by (auto split: prod.splits option.splits)
    note t2 = clone_step_res [OF h(1)]
    note t3 = checkout_step_res [OF h(2)]
    from build_step_None [OF h(3)] obtain buildPath where
      t4: "trace s4 = trace s3 @ [Log ''Building the site...'' ''status'', Build buildPath (buildOptions opts)]"
      by blast
    from copy_step_trace [of e opts dp s4] h(4) obtain copies where
      t5: "trace s5 = trace s4 @ Log ''Copying deployment files...'' ''status'' # copies"
      and cp: "list_all fs_event copies" by auto
    note t6 = clear_index_step_res [OF h(5)]
    note t7 = add_step_res [OF h(6)]
    note t8 = commit_step_res [OF h(7)]
    note t9 = push_step_res [OF h(8)]
    note t10 = cleanup_step_res [OF h(9)]
    note tF = success_step_res [OF h(10)]
    define mid where "mid = (if fst (run_invoke e (''git -C '' @ git_dir e dp @ '' checkout '' @ to_string (get opts ''branch'')) s2) = None
      then [Log (''Checking out branch: '' @ to_string (get opts ''branch'') @ ''...'') ''status'']
      else [Log (''Creating new branch: '' @ to_string (get opts ''branch'') @ ''...'') ''status'',
            Invoke (''git -C '' @ git_dir e dp @ '' checkout -b '' @ to_string (get opts ''branch''))])"
    have t3': "trace s3 = trace s2 @ Invoke (''git -C '' @ git_dir e dp @ '' checkout '' @ to_string (get opts ''branch'')) # mid"
      unfolding t3 mid_def by simp
    have m: "mid = [Log (''Checking out branch: '' @ to_string (get opts ''branch'') @ ''...'') ''status'']
               \<or> mid = [Log (''Creating new branch: '' @ to_string (get opts ''branch'') @ ''...'') ''status'',
                         Invoke (''git -C '' @ git_dir e dp @ '' checkout -b '' @ to_string (get opts ''branch''))]"
      unfolding mid_def by simp
    have "?P dp mid buildPath copies"
      unfolding rF tF t10 t9 t8 t7 t6 t5 t4 t3' t2
      using Inr m cp by simp
    then show ?thesis by blast
  qed
qed

lemma announces_steps:
  "announces (''Cloning the repository into '' @ dp @ ''...'') (clone_step e opts dp)"
  "announces ''Building the site...'' (build_step e opts dp)"
  "announces ''Copying deployment files...'' (copy_step e opts dp)"
  "announces ''Clearing the index...'' (clear_index_step e dp)"
  "announces ''Adding all files to the index...'' (add_step e dp)"
  "announces ''Committing changes...'' (commit_step e opts dp)"
  "announces (''Pushing branch: '' @ to_string (get opts ''branch'') @ ''...'') (push_step e opts dp)"
  "\<not> truthy (get opts ''debug'') \<Longrightarrow>
   announces (''Removing the '' @ dp @ '' directory...'') (cleanup_step e opts dp)"
  unfolding announces_def
  using build_step_trace [of e opts dp] copy_step_trace [of e opts dp]
  by (simp_all add: clone_step_trace clear_index_step_trace add_step_trace commit_step_trace
      push_step_trace cleanup_step_trace) blast+

lemma checkout_acts_first:
  "\<exists>evs. trace (snd (checkout_step e opts dp s)) =
     trace s @ Invoke (''git -C '' @ git_dir e dp @ '' checkout '' @ to_string (get opts ''branch'')) # evs"
  by (simp add: checkout_step_trace)




section \<open>The checkout fallback\<close>

lemma run_started:
  assumes "truthy (get (merge_options config cli) ''remote'')"
      "truthy (get (merge_options config cli) ''branch'')"
      "truthy (get (merge_options config cli) ''message'')"
      "truthy (get (merge_options config cli) ''email'') \<longrightarrow> truthy (get (merge_options config cli) ''name'')"
  shows "run e config ''deploy-git'' cli fs =
        promise_chain e (merge_options config cli) \<lparr>files = fs, trace = [], destPath = None\<rparr>"
proof -
  have "filter (\<lambda>n. \<not> truthy (get (merge_options config cli) n)) requiredOptions = []"
    using assms by (simp add: requiredOptions_def)
  from run_valid [OF this, of e fs] assms(4) show ?thesis by auto
qed

lemma run_invoke_eq:
  "invoke e c (files s) = (r, fs') \<Longrightarrow> run_invoke e c s = (r, (emit (Invoke c) s)\<lparr>files := fs'\<rparr>)"
  by (simp add: run_invoke_def Let_def)

lemma not_self_prefixed: "a # b # c # xs \<noteq> xs" "xs \<noteq> a # b # c # xs"
proof -
  have "length (a # b # c # xs) \<noteq> length xs" by simp
  then show "a # b # c # xs \<noteq> xs" by metis
  then show "xs \<noteq> a # b # c # xs" by metis
qed

lemma emits_after_checkout:
  assumes "h \<in> set [build_step e opts dp, copy_step e opts dp, clear_index_step e dp, add_step e dp,
      commit_step e opts dp, push_step e opts dp, cleanup_step e opts dp, success_step]"
  shows "emits (\<lambda>ev. ev \<noteq> Invoke (''git -C '' @ git_dir e dp @ '' checkout '' @ b)
                   \<and> ev \<noteq> Invoke (''git -C '' @ git_dir e dp @ '' checkout -b '' @ b)) h"
proof -
  have fs: "\<And>ev. fs_event ev \<Longrightarrow> ev \<noteq> Invoke (''git -C '' @ git_dir e dp @ '' checkout '' @ b)
                   \<and> ev \<noteq> Invoke (''git -C '' @ git_dir e dp @ '' checkout -b '' @ b)"
    by auto
  show ?thesis
    using assms
    by (auto intro!: emits_build_step emits_copy_step emits_clear_index_step emits_add_step
        emits_commit_step emits_push_step emits_cleanup_step emits_success_step fs)
qed

text \<open>
  C3. When the checkout of the target branch fails (after a successful clone), the
  pipeline logs that it creates the branch and issues the create-and-checkout command
  exactly once in the whole run, and never issues the plain checkout again. If the
  fallback fails as well, nothing else is attempted: the run ends there, the workspace is
  removed when \<open>debug\<close> is unset (it is gone from the file system), and the callback
  receives the error of the fallback.
\<close>

theorem checkout_fallback_once:
  assumes opts: "opts = merge_options config cli"
    and valid: "truthy (get opts ''remote'')" "truthy (get opts ''branch'')" "truthy (get opts ''message'')"
      "truthy (get opts ''email'') \<longrightarrow> truthy (get opts ''name'')"
    and created: "mktemp e ''aquifer-git-XXXXXXX'' = Inr dp"
    and cloned: "invoke e (''git clone '' @ to_string (get opts ''remote'') @ '' '' @ dp)
                   (fs(resolve (cwd e) dp \<mapsto> Dir)) = (None, fs2)"
    and co: "co = ''git -C '' @ git_dir e dp @ '' checkout '' @ to_string (get opts ''branch'')"
    and cob: "cob = ''git -C '' @ git_dir e dp @ '' checkout -b '' @ to_string (get opts ''branch'')"
    and checkout_fails: "invoke e co fs2 = (Some err1, fs3)"
  shows "length (filter (\<lambda>ev. ev = Invoke cob) (trace (run e config ''deploy-git'' cli fs))) = 1
    \<and> length (filter (\<lambda>ev. ev = Invoke co) (trace (run e config ''deploy-git'' cli fs))) = 1
    \<and> (\<forall>err2 fs4. invoke e cob fs3 = (Some err2, fs4) \<longrightarrow>
          trace (run e config ''deploy-git'' cli fs) =
            [CreateDir ''aquifer-git-XXXXXXX'',
             Log (''Cloning the repository into '' @ dp @ ''...'') ''status'',
             Invoke (''git clone '' @ to_string (get opts ''remote'') @ '' '' @ dp),
             Invoke co,
             Log (''Creating new branch: '' @ to_string (get opts ''branch'') @ ''...'') ''status'',
             Invoke cob]
            @ (if truthy (get opts ''debug'') then [] else [Remove (Some dp)])
            @ [Callback err2]
          \<and> (\<not> truthy (get opts ''debug'') \<longrightarrow>
                files (run e config ''deploy-git'' cli fs) (resolve (cwd e) dp) = None))"
proof -
  let ?r = "run e config ''deploy-git'' cli fs"
  let ?s0 = "\<lparr>files = fs, trace = [], destPath = None\<rparr>"
  let ?s1 = "?s0\<lparr>trace := trace ?s0 @ [CreateDir ''aquifer-git-XXXXXXX''],
                  files := (files ?s0)(resolve (cwd e) dp \<mapsto> Dir)\<rparr>"
  let ?rest = "[build_step e opts dp, copy_step e opts dp, clear_index_step e dp, add_step e dp,
      commit_step e opts dp, push_step e opts dp, cleanup_step e opts dp, success_step]"
  let ?head = "[CreateDir ''aquifer-git-XXXXXXX'',
             Log (''Cloning the repository into '' @ dp @ ''...'') ''status'',
             Invoke (''git clone '' @ to_string (get opts ''remote'') @ '' '' @ dp),
             Invoke co,
             Log (''Creating new branch: '' @ to_string (get opts ''branch'') @ ''...'') ''status'',
             Invoke cob]"
  have ne: "cob \<noteq> co" "co \<noteq> cob"
    "''git clone '' @ to_string (get opts ''remote'') @ '' '' @ dp \<noteq> co"
    "''git clone '' @ to_string (get opts ''remote'') @ '' '' @ dp \<noteq> cob"
    unfolding co cob by (simp_all add: not_self_prefixed)
  have r: "?r = (case chain ([clone_step e opts dp, checkout_step e opts dp] @ ?rest) ?s1 of
                   (None, s1) \<Rightarrow> s1 | (Some err, s1) \<Rightarrow> catch_handler e opts err s1)"
    using run_started [of config cli e fs] valid promise_chain_Inr [OF created, of opts ?s0]
    by (simp add: opts deploy_steps_def del: chain.simps)
  obtain r4 fs4 where fb: "invoke e cob fs3 = (r4, fs4)" by (cases "invoke e cob fs3")
  define s4 where "s4 = \<lparr>files = fs4, trace = ?head, destPath = Some dp\<rparr>"
  have c2: "chain [clone_step e opts dp, checkout_step e opts dp] ?s1 = (r4, s4)"
    using cloned checkout_fails [unfolded co] fb [unfolded cob]
    by (simp add: clone_step_def checkout_step_def Let_def run_invoke_eq console_log_def emit_def
        s4_def [unfolded co cob] split: option.splits)
  show ?thesis
  proof (cases r4)
    case (Some err2)
    then have rr: "?r = catch_handler e opts err2 s4"
      unfolding r chain_append c2 by simp
    have t: "trace ?r = ?head @ (if truthy (get opts ''debug'') then [] else [Remove (Some dp)]) @ [Callback err2]"
      unfolding rr by (simp add: catch_handler_trace s4_def)
    have f: "\<not> truthy (get opts ''debug'') \<Longrightarrow> files ?r (resolve (cwd e) dp) = None"
      unfolding rr by (simp add: catch_handler_def s4_def removeSync_Some remove_path_gone)
    show ?thesis
      using t f fb Some ne by auto
  next
    case None
    then have rr: "?r = (case chain ?rest s4 of (None, s1) \<Rightarrow> s1 | (Some err, s1) \<Rightarrow> catch_handler e opts err s1)"
      unfolding r chain_append c2 by simp
    have em: "\<And>h. h \<in> set ?rest \<Longrightarrow> emits (\<lambda>ev. ev \<noteq> Invoke co \<and> ev \<noteq> Invoke cob) h"
      unfolding co cob by (rule emits_after_checkout)
    have "\<exists>evs. trace (case chain ?rest s4 of (None, s1) \<Rightarrow> s1 | (Some err, s1) \<Rightarrow> catch_handler e opts err s1)
            = trace s4 @ evs \<and> list_all (\<lambda>ev. ev \<noteq> Invoke co \<and> ev \<noteq> Invoke cob) evs"
      by (rule settle_extends) (simp_all only: em event.distinct not_False_eq_True simp_thms)
    then obtain evs where t: "trace ?r = ?head @ evs"
      and q: "list_all (\<lambda>ev. ev \<noteq> Invoke co \<and> ev \<noteq> Invoke cob) evs"
      unfolding rr [symmetric] by (auto simp: s4_def)
    have "filter (\<lambda>ev. ev = Invoke cob) evs = []" "filter (\<lambda>ev. ev = Invoke co) evs = []"
      using q by (auto simp: list_all_iff filter_empty_conv)
    then show ?thesis
      using t fb None ne by auto
  qed
qed

theorem checkout_fallback_once_witness:
  "length (filter (\<lambda>ev. ev = Invoke ''git -C /proj/aquifer-git-abc1234 checkout -b gh-pages'')
      (trace (run failing_checkout_env [] ''deploy-git'' sample_options empty_fs))) = 1
   \<and> callbacks (trace (run failing_checkout_env [] ''deploy-git'' sample_options empty_fs))
       = [''fatal: unable to write new index file'']
   \<and> files (run failing_checkout_env [] ''deploy-git'' sample_options empty_fs)
         [''proj'', ''aquifer-git-abc1234''] = None"
proof -
  let ?e = failing_checkout_env
  let ?opts = "merge_options [] sample_options"
  let ?dp = "''aquifer-git-abc1234''"
  let ?fs1 = "empty_fs(resolve (cwd ?e) ?dp \<mapsto> Dir)"
  let ?co = "''git -C '' @ git_dir ?e ?dp @ '' checkout '' @ to_string (get ?opts ''branch'')"
  let ?cob = "''git -C '' @ git_dir ?e ?dp @ '' checkout -b '' @ to_string (get ?opts ''branch'')"
  have v: "truthy (get ?opts ''remote'')" "truthy (get ?opts ''branch'')" "truthy (get ?opts ''message'')"
    "truthy (get ?opts ''email'') \<longrightarrow> truthy (get ?opts ''name'')"
    by (simp_all add: get_eval sample_options_def)
  have created: "mktemp ?e ''aquifer-git-XXXXXXX'' = Inr ?dp"
    by (simp add: failing_checkout_env_def quiet_env_def)
  have dir: "git_dir ?e ?dp = ''/proj/aquifer-git-abc1234''"
    by (simp add: failing_checkout_env_def quiet_env_def path_eval)
  have br: "to_string (get ?opts ''branch'') = ''gh-pages''" "to_string (get ?opts ''remote'') = ''repo.git''"
    "\<not> truthy (get ?opts ''debug'')"
    by (simp_all add: get_eval sample_options_def)
  have co: "?co = ''git -C /proj/aquifer-git-abc1234 checkout gh-pages''"
    and cob: "?cob = ''git -C /proj/aquifer-git-abc1234 checkout -b gh-pages''"
    by (simp_all add: dir br)
  have cloned: "invoke ?e (''git clone '' @ to_string (get ?opts ''remote'') @ '' '' @ ?dp) ?fs1 = (None, ?fs1)"
    by (simp add: br failing_checkout_env_def quiet_env_def)
  have fails: "invoke ?e ?co ?fs1
      = (Some ''error: pathspec gh-pages did not match any file(s) known to git'', ?fs1)"
    unfolding co by (simp add: failing_checkout_env_def quiet_env_def)
  have fails2: "invoke ?e ?cob ?fs1 = (Some ''fatal: unable to write new index file'', ?fs1)"
    unfolding cob by (simp add: failing_checkout_env_def quiet_env_def)
  have ws: "resolve (cwd ?e) ?dp = [''proj'', ''aquifer-git-abc1234'']"
    by (simp add: failing_checkout_env_def quiet_env_def path_eval)
  from checkout_fallback_once [OF refl v created cloned refl refl fails] fails2
  show ?thesis
    unfolding cob ws using br(3) by (simp add: dir br)
qed

section \<open>The cleanup\<close>

lemma keeps_after_clone:
  assumes "h \<in> set [checkout_step e opts dp, build_step e opts dp, copy_step e opts dp,
      clear_index_step e dp, add_step e dp, commit_step e opts dp, push_step e opts dp]"
  shows "keeps_destPath h"
  using assms
  by (auto simp: keeps_destPath_def checkout_step_destPath build_step_destPath copy_step_destPath
      other_steps_destPath)

lemma deploy_steps_destPath:
  "destPath (snd (chain (deploy_steps e opts dp) s)) = Some dp"
proof -
  obtain r s2 where c: "clone_step e opts dp s = (r, s2)" by (cases "clone_step e opts dp s")
  have d: "destPath s2 = Some dp" using clone_step_destPath [of e opts dp s] c by simp
  have k: "destPath (snd (chain [checkout_step e opts dp, build_step e opts dp, copy_step e opts dp,
      clear_index_step e dp, add_step e dp, commit_step e opts dp, push_step e opts dp] s2)) = destPath s2"
  proof -
    have "keeps_destPath (chain [checkout_step e opts dp, build_step e opts dp, copy_step e opts dp,
      clear_index_step e dp, add_step e dp, commit_step e opts dp, push_step e opts dp])"
      by (rule keeps_chain) (rule keeps_after_clone)
    then show ?thesis by (simp add: keeps_destPath_def del: chain.simps)
  qed
  show ?thesis
    using c d k by (cases r) (simp_all add: deploy_steps_def del: chain.simps, simp_all)
qed

text \<open>
  C2, as amended. For every run that created a workspace: when \<open>debug\<close> is unset, the
  workspace directory no longer exists once the run has settled, whether it succeeded or
  any step failed. When \<open>debug\<close> is set, neither the success path nor the failure path
  cleans up: the file system the run leaves is exactly the one the steps from the clone
  to the push left, so the workspace is still there unless one of those steps removed it.
  Whether the cleanup runs depends on the flag only, not on the outcome.
\<close>

theorem cleanup_keyed_on_debug:
  assumes opts: "opts = merge_options config cli"
    and valid: "truthy (get opts ''remote'')" "truthy (get opts ''branch'')" "truthy (get opts ''message'')"
      "truthy (get opts ''email'') \<longrightarrow> truthy (get opts ''name'')"
    and created: "mktemp e ''aquifer-git-XXXXXXX'' = Inr dp"
  shows "(\<not> truthy (get opts ''debug'') \<longrightarrow>
            files (run e config ''deploy-git'' cli fs) (resolve (cwd e) dp) = None)
       \<and> (truthy (get opts ''debug'') \<longrightarrow>
            files (run e config ''deploy-git'' cli fs) =
            files (snd (chain (deploy_steps e opts dp)
                     \<lparr>files = fs(resolve (cwd e) dp \<mapsto> Dir),
                      trace = [CreateDir ''aquifer-git-XXXXXXX''], destPath = None\<rparr>)))"
proof -
  let ?r = "run e config ''deploy-git'' cli fs"
  let ?s1 = "\<lparr>files = fs(resolve (cwd e) dp \<mapsto> Dir),
              trace = [CreateDir ''aquifer-git-XXXXXXX''], destPath = None\<rparr>"
  have r: "?r = (case chain (deploy_steps e opts dp @ [cleanup_step e opts dp, success_step]) ?s1 of
                   (None, s1) \<Rightarrow> s1 | (Some err, s1) \<Rightarrow> catch_handler e opts err s1)"
    using run_started [of config cli e fs] valid promise_chain_Inr [OF created, of opts]
    by (simp add: opts del: chain.simps)
  obtain r8 s8 where c: "chain (deploy_steps e opts dp) ?s1 = (r8, s8)"
    by (cases "chain (deploy_steps e opts dp) ?s1")
  have d: "destPath s8 = Some dp"
    using deploy_steps_destPath [of e opts dp ?s1] c by simp
  show ?thesis
  proof (cases r8)
    case (Some err)
    then have "?r = catch_handler e opts err s8"
      unfolding r chain_append c by simp
    then show ?thesis
      using c d by (simp add: catch_handler_def removeSync_Some remove_path_gone)
  next
    case None
    then have "?r = (case chain [cleanup_step e opts dp, success_step] s8 of
                   (None, s1) \<Rightarrow> s1 | (Some err, s1) \<Rightarrow> catch_handler e opts err s1)"
      unfolding r chain_append c by simp
    then show ?thesis
      using c by (simp add: cleanup_step_def success_step_def removeSync_Some remove_path_gone)
  qed
qed

theorem cleanup_keyed_on_debug_witness:
  "\<not> truthy (get (merge_options [] sample_options) ''debug'')
   \<and> files (run quiet_env [] ''deploy-git'' sample_options empty_fs) [''proj'', ''aquifer-git-abc1234''] = None"
proof -
  let ?opts = "merge_options [] sample_options"
  have v: "truthy (get ?opts ''remote'')" "truthy (get ?opts ''branch'')" "truthy (get ?opts ''message'')"
    "truthy (get ?opts ''email'') \<longrightarrow> truthy (get ?opts ''name'')"
    and d: "\<not> truthy (get ?opts ''debug'')"
    by (simp_all add: get_eval sample_options_def)
  have created: "mktemp quiet_env ''aquifer-git-XXXXXXX'' = Inr ''aquifer-git-abc1234''"
    by (simp add: quiet_env_def)
  have ws: "resolve (cwd quiet_env) ''aquifer-git-abc1234'' = [''proj'', ''aquifer-git-abc1234'']"
    by (simp add: path_eval)
  from cleanup_keyed_on_debug [OF refl v created, of empty_fs] d
  show ?thesis unfolding ws by simp
qed

text \<open>
  The claim C2 as stated fails for \<open>debug = true\<close>: the copy step removes each destination
  before it copies, so a deployment file whose destination is the workspace itself and
  whose source is missing removes the workspace and then fails; the directory was
  created, \<open>debug\<close> is set, and the directory does not exist when the run has settled.
\<close>

theorem workspace_kept_counterexample:
  "truthy (get (merge_options [] debug_options) ''debug'')
   \<and> CreateDir ''aquifer-git-XXXXXXX'' \<in> set (trace (run quiet_env [] ''deploy-git'' debug_options empty_fs))
   \<and> destPath (run quiet_env [] ''deploy-git'' debug_options empty_fs) = Some ''aquifer-git-abc1234''
   \<and> files (run quiet_env [] ''deploy-git'' debug_options empty_fs) [''proj'', ''aquifer-git-abc1234''] = None"
  by (simp add: run_eval debug_options_def copySync_eq copy_path_def delete_tree_def empty_fs_def)

section \<open>A failure to create the workspace\<close>

text \<open>
  C1 at the input where it fails. When the temporary directory cannot be created and
  \<open>debug\<close> is unset, the final catch calls \<open>removeSync\<close> on the variable \<open>destPath\<close>,
  which is still undefined; that call throws, and the callback on the next line is never
  reached: the run ends with no callback at all. With \<open>debug\<close> set the same error is
  delivered.
\<close>

theorem workspace_error_not_delivered:
  "trace (run unwritable_env [] ''deploy-git'' sample_options empty_fs)
     = [CreateDir ''aquifer-git-XXXXXXX'', Remove None]
   \<and> callbacks (trace (run unwritable_env [] ''deploy-git'' sample_options empty_fs)) = []
   \<and> trace (run unwritable_env [] ''deploy-git'' (sample_options @ [(''debug'', JBool True)]) empty_fs)
     = [CreateDir ''aquifer-git-XXXXXXX'', Callback ''EACCES: permission denied, mkdir'']"
  by (simp add: run_eval unwritable_env_def quiet_env_def mktemp_createDir_def fs_removeSync_def emit_def)

section \<open>The copy step twice\<close>

lemma copy_link_paths:
  "copy_link e dp link s =
     (case link_paths e dp link of
        Inl err \<Rightarrow> (Some err, s)
      | Inr (src, dest) \<Rightarrow> chain [fs_removeSync e (Some dest), fs_copySync e src dest] s)"
  by (simp add: copy_link_def link_paths_def del: chain.simps split: sum.splits)

lemma copy_all_Cons:
  "link_paths e dp link = Inr (src, dest) \<Longrightarrow>
   copy_all e dp (link # links) fs =
     (if fst (copy_path e src dest (remove_path e dest fs)) = None
      then copy_all e dp links (snd (copy_path e src dest (remove_path e dest fs)))
      else copy_path e src dest (remove_path e dest fs))"
  by (cases "copy_path e src dest (remove_path e dest fs)") (auto split: option.splits)

lemma touched_Cons:
  "link_paths e dp link = Inr (src, dest) \<Longrightarrow>
   touched e dp (link # links) fs =
     {k. prefix (resolve (cwd e) dest) k} \<union>
     (if fst (copy_path e src dest (remove_path e dest fs)) = None
      then touched e dp links (snd (copy_path e src dest (remove_path e dest fs)))
      else {})"
  by (cases "copy_path e src dest (remove_path e dest fs)") (auto split: option.splits)

lemma copy_all_Inl:
  "link_paths e dp link = Inl err \<Longrightarrow> copy_all e dp (link # links) fs = (Some err, fs)"
  "link_paths e dp link = Inl err \<Longrightarrow> touched e dp (link # links) fs = {}"
  by simp_all

declare copy_all.simps(2) [simp del] touched.simps(2) [simp del]

lemma chain_copy_all:
  "fst (chain (map (copy_link e dp) links) s) = fst (copy_all e dp links (files s))
   \<and> files (snd (chain (map (copy_link e dp) links) s)) = snd (copy_all e dp links (files s))"
proof (induction links arbitrary: s)
  case Nil
  show ?case by simp
next
  case (Cons link links)
  show ?case
  proof (cases "link_paths e dp link")
    case (Inl err)
    then show ?thesis by (simp add: copy_link_paths copy_all_Inl)
  next
    case (Inr p)
    obtain src dest where p: "p = (src, dest)" by (cases p)
    note lp = Inr [unfolded p]
    obtain r fs2 where c: "copy_path e src dest (remove_path e dest (files s)) = (r, fs2)"
      by (cases "copy_path e src dest (remove_path e dest (files s))")
    let ?s2 = "(emit (Copy src dest) ((emit (Remove (Some dest)) s)\<lparr>files := remove_path e dest (files s)\<rparr>))\<lparr>files := fs2\<rparr>"
    have link: "copy_link e dp link s = (r, ?s2)"
      by (simp add: copy_link_paths Inr p removeSync_Some copySync_eq c split: option.splits)
    show ?thesis
    proof (cases r)
      case None
      then show ?thesis
        using Cons.IH [of ?s2] by (simp add: link copy_all_Cons [OF lp] c)
    next
      case (Some err)
      then show ?thesis by (simp add: link copy_all_Cons [OF lp] c)
    qed
  qed
qed

lemma below_file_iff: "below_file fs p = (\<exists>q. strict_prefix q p \<and> is_file fs q)"
  by (auto simp: below_file_def list_ex_iff in_set_prefixes strict_prefix_def)

lemma below_file_cong:
  "(\<And>q. strict_prefix q p \<Longrightarrow> h q = g q) \<Longrightarrow> below_file h p = below_file g p"
  by (auto simp: below_file_iff is_file_def)

text \<open>
  One pair whose destination is no pattern and does not contain its source: the removal
  deletes the destination, and the copy either fails and changes nothing more, or copies
  the source there.
\<close>

lemma pair_regular:
  assumes "\<not> hasMagic e dest" "\<not> prefix (resolve (cwd e) src) (resolve (cwd e) dest)"
  shows "snd (copy_path e src dest (remove_path e dest fs)) =
           (if fst (copy_path e src dest (remove_path e dest fs)) = None
            then copy_tree (resolve (cwd e) src) (resolve (cwd e) dest) (delete_tree (resolve (cwd e) dest) fs)
            else delete_tree (resolve (cwd e) dest) fs)"
proof -
  have "delete_tree (resolve (cwd e) dest) fs (resolve (cwd e) dest) = None"
    by (simp add: delete_tree_def)
  then show ?thesis
    using assms by (simp add: copy_path_def remove_path_plain Let_def)
qed

lemma pair_outcome_cong:
  assumes "\<not> hasMagic e dest" "\<not> prefix (resolve (cwd e) src) (resolve (cwd e) dest)"
    and "delete_tree (resolve (cwd e) dest) h (resolve (cwd e) src)
         = delete_tree (resolve (cwd e) dest) g (resolve (cwd e) src)"
    and "\<And>q. strict_prefix q (resolve (cwd e) dest) \<Longrightarrow> h q = g q"
  shows "fst (copy_path e src dest (remove_path e dest h)) = fst (copy_path e src dest (remove_path e dest g))"
proof -
  let ?S = "resolve (cwd e) src" and ?D = "resolve (cwd e) dest"
  have gone: "delete_tree ?D h ?D = None" "delete_tree ?D g ?D = None"
    by (simp_all add: delete_tree_def)
  have "\<And>q. strict_prefix q ?D \<Longrightarrow> delete_tree ?D h q = delete_tree ?D g q"
    using assms(4) by (auto simp: delete_tree_def)
  then have b: "below_file (delete_tree ?D h) ?D = below_file (delete_tree ?D g) ?D"
    by (rule below_file_cong)
  have f: "is_file (delete_tree ?D h) ?S = is_file (delete_tree ?D g) ?S"
    using assms(3) by (simp add: is_file_def)
  show ?thesis
    using assms(1,2) gone b f assms(3)
    by (simp add: copy_path_def remove_path_plain Let_def)
qed

lemma outside_destination:
  assumes "S \<in> Srcs" "prefix S k" "\<forall>S \<in> Srcs. \<not> prefix D S \<and> \<not> prefix S D"
  shows "\<not> prefix D k"
proof
  assume "prefix D k"
  with assms(2) have "prefix S D \<or> prefix D S"
    using prefix_same_cases by blast
  with assms(1,3) show False by blast
qed

lemma delete_tree_outside: "\<not> prefix D k \<Longrightarrow> delete_tree D g k = g k"
  by (simp add: delete_tree_def)

lemma copy_tree_outside: "\<not> prefix D k \<Longrightarrow> copy_tree S D g k = g k"
  by (simp add: copy_tree_def)

lemma copy_tree_inside:
  "prefix D k \<Longrightarrow> copy_tree S D (delete_tree D g) k = delete_tree D g (S @ drop (length D) k)"
  by (simp add: copy_tree_def delete_tree_def split: option.splits)

lemma pair_outside:
  assumes "\<not> hasMagic e dest" "\<not> prefix (resolve (cwd e) src) (resolve (cwd e) dest)"
    and "\<not> prefix (resolve (cwd e) dest) k"
  shows "snd (copy_path e src dest (remove_path e dest g)) k = g k"
  using assms(3) by (simp add: pair_regular [OF assms(1,2)] delete_tree_outside copy_tree_outside)

lemma valid_pairs_Cons:
  "link_paths e dp link = Inr (src, dest) \<Longrightarrow>
   valid_pairs e dp (link # links) = (src, dest) # valid_pairs e dp links"
  "link_paths e dp link = Inl err \<Longrightarrow> valid_pairs e dp (link # links) = valid_pairs e dp links"
  by (simp_all add: valid_pairs_def)

lemma touched_under:
  "k \<in> touched e dp links g \<Longrightarrow>
   \<exists>D \<in> set (map (\<lambda>(src, dest). resolve (cwd e) dest) (valid_pairs e dp links)). prefix D k"
proof (induction links arbitrary: g)
  case Nil
  then show ?case by simp
next
  case (Cons link links)
  show ?case
  proof (cases "link_paths e dp link")
    case (Inl err)
    with Cons.prems show ?thesis by (simp add: copy_all_Inl)
  next
    case (Inr p)
    obtain src dest where p: "p = (src, dest)" by (cases p)
    note lp = Inr [unfolded p]
    from Cons.prems consider "prefix (resolve (cwd e) dest) k"
      | "k \<in> touched e dp links (snd (copy_path e src dest (remove_path e dest g)))"
      by (auto simp: touched_Cons [OF lp] split: if_splits)
    then show ?thesis
    proof cases
      case 1
      then show ?thesis by (simp add: valid_pairs_Cons(1) [OF lp])
    next
      case 2
      from Cons.IH [OF this] show ?thesis by (auto simp: valid_pairs_Cons(1) [OF lp])
    qed
  qed
qed

lemma copy_all_sources:
  assumes "\<forall>(src, dest) \<in> set (valid_pairs e dp links).
             \<not> hasMagic e dest \<and> resolve (cwd e) src \<in> Srcs
             \<and> (\<forall>S \<in> Srcs. \<not> prefix (resolve (cwd e) dest) S \<and> \<not> prefix S (resolve (cwd e) dest))"
    and "S \<in> Srcs" "prefix S k"
  shows "snd (copy_all e dp links g) k = g k"
  using assms(1)
proof (induction links arbitrary: g)
  case Nil
  show ?case by simp
next
  case (Cons link links)
  show ?case
  proof (cases "link_paths e dp link")
    case (Inl err)
    then show ?thesis by (simp add: copy_all_Inl)
  next
    case (Inr p)
    obtain src dest where p: "p = (src, dest)" by (cases p)
    note lp = Inr [unfolded p]
    have magic: "\<not> hasMagic e dest" and src: "resolve (cwd e) src \<in> Srcs"
      and apart: "\<forall>S \<in> Srcs. \<not> prefix (resolve (cwd e) dest) S \<and> \<not> prefix S (resolve (cwd e) dest)"
      using Cons.prems by (simp_all add: valid_pairs_Cons(1) [OF lp])
    from outside_destination [OF assms(2,3) apart]
    have out: "\<not> prefix (resolve (cwd e) dest) k" .
    have nin: "\<not> prefix (resolve (cwd e) src) (resolve (cwd e) dest)"
      using src apart by blast
    have ih: "\<And>g. snd (copy_all e dp links g) k = g k"
      using Cons.IH Cons.prems by (simp add: valid_pairs_Cons(1) [OF lp])
    show ?thesis
      by (simp add: copy_all_Cons [OF lp] ih pair_outside [OF magic nin out])
  qed
qed

lemma copy_all_touched:
  assumes "\<forall>(src, dest) \<in> set (valid_pairs e dp links).
             \<not> hasMagic e dest \<and> \<not> prefix (resolve (cwd e) src) (resolve (cwd e) dest)"
    and "snd (copy_all e dp links g) k \<noteq> g k"
  shows "k \<in> touched e dp links g"
  using assms
proof (induction links arbitrary: g)
  case Nil
  then show ?case by simp
next
  case (Cons link links)
  show ?case
  proof (cases "link_paths e dp link")
    case (Inl err)
    with Cons.prems show ?thesis by (simp add: copy_all_Inl)
  next
    case (Inr p)
    obtain src dest where p: "p = (src, dest)" by (cases p)
    note lp = Inr [unfolded p]
    have magic: "\<not> hasMagic e dest" and nin: "\<not> prefix (resolve (cwd e) src) (resolve (cwd e) dest)"
      and rest: "\<forall>(src, dest) \<in> set (valid_pairs e dp links).
             \<not> hasMagic e dest \<and> \<not> prefix (resolve (cwd e) src) (resolve (cwd e) dest)"
      using Cons.prems(1) by (simp_all add: valid_pairs_Cons(1) [OF lp])
    show ?thesis
    proof (cases "prefix (resolve (cwd e) dest) k")
      case True
      then show ?thesis by (simp add: touched_Cons [OF lp])
    next
      case False
      let ?g2 = "snd (copy_path e src dest (remove_path e dest g))"
      have same: "?g2 k = g k"
        by (rule pair_outside [OF magic nin False])
      show ?thesis
      proof (cases "fst (copy_path e src dest (remove_path e dest g)) = None")
        case True
        with Cons.prems(2) have "snd (copy_all e dp links ?g2) k \<noteq> ?g2 k"
          by (simp add: copy_all_Cons [OF lp] same)
        from Cons.IH [OF rest this] show ?thesis
          by (simp add: touched_Cons [OF lp] True)
      next
        case failed: False
        with Cons.prems(2) same show ?thesis by (simp add: copy_all_Cons [OF lp])
      qed
    qed
  qed
qed

lemma copy_all_agree:
  assumes "\<forall>(src, dest) \<in> set (valid_pairs e dp links).
             \<not> hasMagic e dest \<and> resolve (cwd e) src \<in> Srcs
             \<and> (\<forall>S \<in> Srcs. \<not> prefix (resolve (cwd e) dest) S \<and> \<not> prefix S (resolve (cwd e) dest))"
    and "apart_list (map (\<lambda>(src, dest). resolve (cwd e) dest) (valid_pairs e dp links))"
    and "\<forall>k. (\<exists>S \<in> Srcs. prefix S k) \<longrightarrow> h k = g k"
    and "\<forall>k. h k \<noteq> g k \<longrightarrow> k \<in> touched e dp links g"
  shows "copy_all e dp links h = copy_all e dp links g"
  using assms
proof (induction links arbitrary: g h)
  case Nil
  then have "h = g" by (intro ext) auto
  then show ?case by simp
next
  case (Cons link links)
  show ?case
  proof (cases "link_paths e dp link")
    case (Inl err)
    with Cons.prems(4) have "h = g" by (intro ext) (auto simp: copy_all_Inl)
    then show ?thesis by simp
  next
    case (Inr p)
    obtain src dest where p: "p = (src, dest)" by (cases p)
    note lp = Inr [unfolded p]
    let ?S = "resolve (cwd e) src" and ?D = "resolve (cwd e) dest"
    let ?rest = "map (\<lambda>(src, dest). resolve (cwd e) dest) (valid_pairs e dp links)"
    have magic: "\<not> hasMagic e dest" and src: "?S \<in> Srcs"
      and apart: "\<forall>S \<in> Srcs. \<not> prefix ?D S \<and> \<not> prefix S ?D"
      and rest: "\<forall>(src, dest) \<in> set (valid_pairs e dp links).
             \<not> hasMagic e dest \<and> resolve (cwd e) src \<in> Srcs
             \<and> (\<forall>S \<in> Srcs. \<not> prefix (resolve (cwd e) dest) S \<and> \<not> prefix S (resolve (cwd e) dest))"
      using Cons.prems(1) by (simp_all add: valid_pairs_Cons(1) [OF lp])
    have dests: "\<forall>D' \<in> set ?rest. \<not> prefix ?D D' \<and> \<not> prefix D' ?D" and rest_apart: "apart_list ?rest"
      using Cons.prems(2) by (simp_all add: valid_pairs_Cons(1) [OF lp])
    have nin: "\<not> prefix ?S ?D"
      using src apart by blast
    have agree: "\<And>k S. S \<in> Srcs \<Longrightarrow> prefix S k \<Longrightarrow> h k = g k"
      using Cons.prems(3) by blast
    have out: "\<And>k S. S \<in> Srcs \<Longrightarrow> prefix S k \<Longrightarrow> \<not> prefix ?D k"
      using outside_destination apart by blast
    have S_same: "delete_tree ?D h ?S = delete_tree ?D g ?S"
      using out [OF src, of ?S] agree [OF src, of ?S] by (simp add: delete_tree_outside)
    have above: "h q = g q" if q: "strict_prefix q ?D" for q
    proof (rule ccontr)
      assume "h q \<noteq> g q"
      with Cons.prems(4) have "q \<in> touched e dp (link # links) g" by blast
      from touched_under [OF this] obtain D' where D': "D' = ?D \<or> D' \<in> set ?rest" "prefix D' q"
        by (auto simp: valid_pairs_Cons(1) [OF lp])
      from D'(2) q have sp: "strict_prefix D' ?D"
        using prefix_order.le_less_trans by blast
      then have "D' \<noteq> ?D" "prefix D' ?D" by (simp_all add: strict_prefix_def)
      with D'(1) dests show False by blast
    qed
    let ?oh = "copy_path e src dest (remove_path e dest h)"
    let ?og = "copy_path e src dest (remove_path e dest g)"
    have outcome: "fst ?oh = fst ?og"
      by (rule pair_outcome_cong [OF magic nin S_same above])
    have under: "\<And>k. prefix ?D k \<Longrightarrow> delete_tree ?D h k = delete_tree ?D g k"
      by (simp add: delete_tree_def)
    show ?thesis
    proof (cases "fst ?og = None")
      case False
      have "delete_tree ?D h = delete_tree ?D g"
      proof
        fix k
        show "delete_tree ?D h k = delete_tree ?D g k"
        proof (cases "prefix ?D k")
          case True
          then show ?thesis by (rule under)
        next
          case nk: False
          have "h k = g k"
          proof (rule ccontr)
            assume "h k \<noteq> g k"
            with Cons.prems(4) have "k \<in> touched e dp (link # links) g" by blast
            with False nk show False by (auto simp: touched_Cons [OF lp])
          qed
          with nk show ?thesis by (simp add: delete_tree_def)
        qed
      qed
      then have "snd ?oh = snd ?og"
        using False outcome by (auto simp: pair_regular [OF magic nin])
      with outcome have "?oh = ?og" by (simp add: prod_eq_iff)
      with False show ?thesis by (auto simp: copy_all_Cons [OF lp])
    next
      case True
      let ?g2 = "copy_tree ?S ?D (delete_tree ?D g)" and ?h2 = "copy_tree ?S ?D (delete_tree ?D h)"
      have g2: "snd ?og = ?g2" and h2: "snd ?oh = ?h2"
        using True outcome by (simp_all add: pair_regular [OF magic nin])
      have inside: "\<And>k. prefix ?D k \<Longrightarrow> ?h2 k = ?g2 k"
      proof -
        fix k
        assume k: "prefix ?D k"
        have pre: "prefix ?S (?S @ drop (length ?D) k)" by simp
        have "delete_tree ?D h (?S @ drop (length ?D) k) = delete_tree ?D g (?S @ drop (length ?D) k)"
          using out [OF src pre] agree [OF src pre] by (simp add: delete_tree_outside)
        then show "?h2 k = ?g2 k" using k by (simp add: copy_tree_inside)
      qed
      have outside: "\<And>k. \<not> prefix ?D k \<Longrightarrow> ?h2 k = h k \<and> ?g2 k = g k"
        by (simp add: delete_tree_outside copy_tree_outside)
      have "copy_all e dp links ?h2 = copy_all e dp links ?g2"
      proof (rule Cons.IH [OF rest rest_apart])
        show "\<forall>k. (\<exists>S \<in> Srcs. prefix S k) \<longrightarrow> ?h2 k = ?g2 k"
          using out agree outside by metis
        show "\<forall>k. ?h2 k \<noteq> ?g2 k \<longrightarrow> k \<in> touched e dp links ?g2"
        proof (intro allI impI)
          fix k
          assume d: "?h2 k \<noteq> ?g2 k"
          then have nk: "\<not> prefix ?D k" using inside by blast
          with d outside have "h k \<noteq> g k" by metis
          with Cons.prems(4) have "k \<in> touched e dp (link # links) g" by blast
          with nk show "k \<in> touched e dp links ?g2"
            by (simp add: touched_Cons [OF lp] True g2)
        qed
      qed
      then show ?thesis
        using True outcome by (simp add: copy_all_Cons [OF lp] g2 h2)
    qed
  qed
qed

lemma copy_all_idempotent:
  assumes "pairs_apart e dp links"
  shows "copy_all e dp links (snd (copy_all e dp links g)) = copy_all e dp links g"
proof -
  define Srcs where "Srcs = {resolve (cwd e) src | src dest. (src, dest) \<in> set (valid_pairs e dp links)}"
  have ok: "\<forall>(src, dest) \<in> set (valid_pairs e dp links).
             \<not> hasMagic e dest \<and> resolve (cwd e) src \<in> Srcs
             \<and> (\<forall>S \<in> Srcs. \<not> prefix (resolve (cwd e) dest) S \<and> \<not> prefix S (resolve (cwd e) dest))"
    using assms unfolding pairs_apart_def Srcs_def by fast
  then have ok2: "\<forall>(src, dest) \<in> set (valid_pairs e dp links).
             \<not> hasMagic e dest \<and> \<not> prefix (resolve (cwd e) src) (resolve (cwd e) dest)"
    by fast
  have dests: "apart_list (map (\<lambda>(src, dest). resolve (cwd e) dest) (valid_pairs e dp links))"
    using assms by (simp add: pairs_apart_def)
  show ?thesis
  proof (rule copy_all_agree [OF ok dests])
    show "\<forall>k. (\<exists>S \<in> Srcs. prefix S k) \<longrightarrow> snd (copy_all e dp links g) k = g k"
      using copy_all_sources [OF ok] by blast
    show "\<forall>k. snd (copy_all e dp links g) k \<noteq> g k \<longrightarrow> k \<in> touched e dp links g"
      using copy_all_touched [OF ok2] by blast
  qed
qed

lemma copy_step_copy_all:
  "get opts ''deploymentFiles'' = JArr links \<Longrightarrow>
   fst (copy_step e opts dp s) = fst (copy_all e dp links (files s))
   \<and> files (snd (copy_step e opts dp s)) = snd (copy_all e dp links (files s))"
  using chain_copy_all [of e dp links "console_log ''Copying deployment files...'' ''status'' s"]
  by (simp add: copy_step_def Let_def del: chain.simps)

lemma copy_step_not_array:
  "\<forall>links. get opts ''deploymentFiles'' \<noteq> JArr links \<Longrightarrow>
   fst (copy_step e opts dp s) = Some ''TypeError: options.deploymentFiles.forEach is not a function''
   \<and> files (snd (copy_step e opts dp s)) = files s"
  by (cases "get opts ''deploymentFiles''") (simp_all add: copy_step_def Let_def)


lemma apart_link_paths:
  "link_paths quiet_env ''aquifer-git-abc1234'' (JObj [(''src'', JStr ''a''), (''dest'', JStr ''robots.txt'')])
     = Inr (''/proj/a'', ''aquifer-git-abc1234/robots.txt'')"
  "link_paths quiet_env ''aquifer-git-abc1234'' (JObj [(''src'', JStr ''b''), (''dest'', JStr ''docs/readme'')])
     = Inr (''/proj/b'', ''aquifer-git-abc1234/docs/readme'')"
  by (simp_all add: link_paths_def get_eval path_eval)

lemma apart_resolved:
  "resolve [''proj''] ''/proj/a'' = [''proj'', ''a'']"
  "resolve [''proj''] ''/proj/b'' = [''proj'', ''b'']"
  "resolve [''proj''] ''aquifer-git-abc1234/robots.txt'' = [''proj'', ''aquifer-git-abc1234'', ''robots.txt'']"
  "resolve [''proj''] ''aquifer-git-abc1234/docs/readme'' = [''proj'', ''aquifer-git-abc1234'', ''docs'', ''readme'']"
  by (simp_all add: path_eval)

lemma apart_no_pattern:
  "\<not> list_ex (\<lambda>c. c \<in> set ''*?[]{}()!+@'') ''aquifer-git-abc1234/robots.txt''"
  "\<not> list_ex (\<lambda>c. c \<in> set ''*?[]{}()!+@'') ''aquifer-git-abc1234/docs/readme''"
  by simp_all

lemma apart_valid_pairs:
  "valid_pairs quiet_env ''aquifer-git-abc1234'' apart_links =
     [(''/proj/a'', ''aquifer-git-abc1234/robots.txt''), (''/proj/b'', ''aquifer-git-abc1234/docs/readme'')]"
  by (simp add: valid_pairs_def apart_links_def apart_link_paths)

lemma apart_links_apart: "pairs_apart quiet_env ''aquifer-git-abc1234'' apart_links"
  by (simp add: pairs_apart_def apart_valid_pairs quiet_hasMagic apart_no_pattern apart_resolved)

lemma apart_files_apart: "\<forall>links. get apart_files ''deploymentFiles'' = JArr links
      \<longrightarrow> pairs_apart quiet_env ''aquifer-git-abc1234'' links"
  using apart_links_apart by (simp add: apart_files_def get_eval)

lemma apart_first_copy:
  "copy_path quiet_env ''/proj/a'' ''aquifer-git-abc1234/robots.txt''
     (remove_path quiet_env ''aquifer-git-abc1234/robots.txt'' three_files)
   = (None, three_files([''proj'', ''aquifer-git-abc1234'', ''robots.txt''] \<mapsto> File ''A''))"
proof -
  have "copy_tree [''proj'', ''a''] [''proj'', ''aquifer-git-abc1234'', ''robots.txt'']
          (delete_tree [''proj'', ''aquifer-git-abc1234'', ''robots.txt''] three_files)
        = three_files([''proj'', ''aquifer-git-abc1234'', ''robots.txt''] \<mapsto> File ''A'')"
    by (rule ext) (auto simp: copy_tree_def delete_tree_def three_files_def prefix_def)
  moreover have "\<not> below_file (delete_tree [''proj'', ''aquifer-git-abc1234'', ''robots.txt''] three_files)
          [''proj'', ''aquifer-git-abc1234'', ''robots.txt'']"
    by (simp add: below_file_def is_file_def delete_tree_def three_files_def)
  ultimately show ?thesis
    by (simp add: copy_path_def quiet_remove apart_no_pattern apart_resolved Let_def
        is_file_def trailing_slash_def delete_tree_def three_files_def)
qed

lemma apart_second_copy:
  "copy_path quiet_env ''/proj/b'' ''aquifer-git-abc1234/docs/readme''
     (remove_path quiet_env ''aquifer-git-abc1234/docs/readme''
        (three_files([''proj'', ''aquifer-git-abc1234'', ''robots.txt''] \<mapsto> File ''A'')))
   = (None, three_files([''proj'', ''aquifer-git-abc1234'', ''robots.txt''] \<mapsto> File ''A'',
                        [''proj'', ''aquifer-git-abc1234'', ''docs'', ''readme''] \<mapsto> File ''B''))"
proof -
  let ?g = "three_files([''proj'', ''aquifer-git-abc1234'', ''robots.txt''] \<mapsto> File ''A'')"
  have "copy_tree [''proj'', ''b''] [''proj'', ''aquifer-git-abc1234'', ''docs'', ''readme'']
          (delete_tree [''proj'', ''aquifer-git-abc1234'', ''docs'', ''readme''] ?g)
        = ?g([''proj'', ''aquifer-git-abc1234'', ''docs'', ''readme''] \<mapsto> File ''B'')"
    by (rule ext) (auto simp: copy_tree_def delete_tree_def three_files_def prefix_def)
  moreover have "\<not> below_file (delete_tree [''proj'', ''aquifer-git-abc1234'', ''docs'', ''readme''] ?g)
          [''proj'', ''aquifer-git-abc1234'', ''docs'', ''readme'']"
    by (simp add: below_file_def is_file_def delete_tree_def three_files_def)
  ultimately show ?thesis
    by (simp add: copy_path_def quiet_remove apart_no_pattern apart_resolved Let_def
        is_file_def trailing_slash_def delete_tree_def three_files_def)
qed

lemma apart_copied:
  "copy_all quiet_env ''aquifer-git-abc1234'' apart_links three_files
   = (None, three_files([''proj'', ''aquifer-git-abc1234'', ''robots.txt''] \<mapsto> File ''A'',
                        [''proj'', ''aquifer-git-abc1234'', ''docs'', ''readme''] \<mapsto> File ''B''))"
  by (simp add: apart_links_def copy_all_Cons [OF apart_link_paths(1)] copy_all_Cons [OF apart_link_paths(2)]
      apart_first_copy apart_second_copy)

lemma apart_step:
  "fst (copy_step quiet_env apart_files ''aquifer-git-abc1234''
          \<lparr>files = three_files, trace = [], destPath = Some ''aquifer-git-abc1234''\<rparr>) = None
   \<and> files (snd (copy_step quiet_env apart_files ''aquifer-git-abc1234''
          \<lparr>files = three_files, trace = [], destPath = Some ''aquifer-git-abc1234''\<rparr>))
     = three_files([''proj'', ''aquifer-git-abc1234'', ''robots.txt''] \<mapsto> File ''A'',
                   [''proj'', ''aquifer-git-abc1234'', ''docs'', ''readme''] \<mapsto> File ''B'')"
proof -
  have g: "get apart_files ''deploymentFiles'' = JArr apart_links"
    by (simp add: apart_files_def get_eval)
  show ?thesis
    by (simp add: copy_step_copy_all [OF g] apart_copied)
qed



section \<open>Pairs that interfere\<close>

lemmas copy_eval = copy_step_def get_eval copy_link_def path_eval removeSync_Some
  copySync_eq copy_path_def remove_path_def below_file_def is_file_def trailing_slash_def
  console_log_def three_files_def delete_tree_def copy_tree_def Let_def

lemma pattern_fields:
  "cwd pattern_env = [''proj'']" "projectDir pattern_env = ''/proj''"
  "hasMagic pattern_env = has_glob_char"
  "glob pattern_env = (\<lambda>pattern fs. if pattern = ''x*''
                         then filter (\<lambda>k. fs k \<noteq> None) [[''proj'', ''x1'']] else [])"
  by (simp_all add: pattern_env_def quiet_env_def)

text \<open>
  A destination written as a pattern: the first run copies \<open>a\<close> to \<open>x1\<close> and then, removing
  \<open>x*\<close>, which does not exist yet, removes \<open>x1\<close>; the second run finds \<open>x*\<close> and removes
  only that, so \<open>x1\<close> stays.
\<close>

lemma pattern_destination_twice:
  "files (snd (copy_step pattern_env pattern_files ''aquifer-git-abc1234''
          \<lparr>files = three_files, trace = [], destPath = Some ''aquifer-git-abc1234''\<rparr>)) [''proj'', ''x1'']
     = None
   \<and> files (snd (copy_step pattern_env pattern_files ''aquifer-git-abc1234''
        (snd (copy_step pattern_env pattern_files ''aquifer-git-abc1234''
          \<lparr>files = three_files, trace = [], destPath = Some ''aquifer-git-abc1234''\<rparr>)))) [''proj'', ''x1'']
     = Some (File ''A'')"
  by (simp add: copy_eval pattern_files_def pattern_fields has_glob_char_def)

text \<open>
  A destination inside another: the first run copies \<open>b\<close> to \<open>x/y\<close> and then replaces \<open>x\<close>
  by the file \<open>c\<close>; the second run cannot copy to \<open>x/y\<close>, below a regular file.
\<close>

lemma nested_destinations_twice:
  "fst (copy_step quiet_env nested_files ''aquifer-git-abc1234''
          \<lparr>files = three_files, trace = [], destPath = Some ''aquifer-git-abc1234''\<rparr>) = None
   \<and> fst (copy_step quiet_env nested_files ''aquifer-git-abc1234''
        (snd (copy_step quiet_env nested_files ''aquifer-git-abc1234''
          \<lparr>files = three_files, trace = [], destPath = Some ''aquifer-git-abc1234''\<rparr>)))
       = Some ''ENOTDIR: not a directory: aquifer-git-abc1234/x/y''"
  by (simp add: copy_eval nested_files_def quiet_hasMagic)

text \<open>A regular file is not copied to a destination named with a trailing slash.\<close>

lemma file_onto_directory_name:
  "fst (copy_step quiet_env slash_files ''aquifer-git-abc1234''
          \<lparr>files = three_files, trace = [], destPath = Some ''aquifer-git-abc1234''\<rparr>)
   = Some ''EISDIR: illegal operation on a directory: aquifer-git-abc1234/out/''"
  by (simp add: copy_eval slash_files_def quiet_hasMagic)

section \<open>Failures after the workspace was created\<close>

lemma emits_no_callback:
  assumes "h \<in> set (deploy_steps e opts dp @ [cleanup_step e opts dp, success_step])"
  shows "emits (\<lambda>ev. \<forall>m. ev \<noteq> Callback m) h"
  using assms unfolding deploy_steps_def
  by (auto intro!: emits_clone_step emits_checkout_step emits_build_step emits_copy_step
      emits_clear_index_step emits_add_step emits_commit_step emits_push_step emits_cleanup_step
      emits_success_step)

lemma callbacks_append [simp]: "callbacks (xs @ ys) = callbacks xs @ callbacks ys"
  by (induction xs rule: callbacks.induct) auto

lemma callbacks_none: "list_all (\<lambda>ev. \<forall>m. ev \<noteq> Callback m) evs \<Longrightarrow> callbacks evs = []"
  by (induction evs rule: callbacks.induct) auto

lemma all_steps_destPath:
  "destPath (snd (chain (deploy_steps e opts dp @ [cleanup_step e opts dp, success_step]) s)) = Some dp"
proof -
  obtain r s8 where c: "chain (deploy_steps e opts dp) s = (r, s8)"
    by (cases "chain (deploy_steps e opts dp) s")
  have d: "destPath s8 = Some dp" using deploy_steps_destPath [of e opts dp s] c by simp
  have "keeps_destPath (chain [cleanup_step e opts dp, success_step])"
    by (rule keeps_chain) (auto simp: keeps_destPath_def other_steps_destPath)
  then have "destPath (snd (chain [cleanup_step e opts dp, success_step] s8)) = Some dp"
    using d by (simp add: keeps_destPath_def del: chain.simps)
  then show ?thesis
    using c d by (cases r) (simp_all add: chain_append del: chain.simps)
qed

text \<open>
  Once the workspace has been created, the caller hears of every failure, and of nothing
  else: the callback receives exactly the error the chain was rejected with, once, and is
  not called when the chain resolves.
\<close>

lemma failure_after_creation_is_delivered:
  assumes opts: "opts = merge_options config cli"
    and valid: "truthy (get opts ''remote'')" "truthy (get opts ''branch'')" "truthy (get opts ''message'')"
      "truthy (get opts ''email'') \<longrightarrow> truthy (get opts ''name'')"
    and created: "mktemp e ''aquifer-git-XXXXXXX'' = Inr dp"
  shows "callbacks (trace (run e config ''deploy-git'' cli fs)) =
           (case fst (deploy_chain e opts \<lparr>files = fs, trace = [], destPath = None\<rparr>) of
              None \<Rightarrow> [] | Some err \<Rightarrow> [err])"
proof -
  let ?r = "run e config ''deploy-git'' cli fs"
  let ?s0 = "\<lparr>files = fs, trace = [], destPath = None\<rparr>"
  let ?s1 = "?s0\<lparr>trace := trace ?s0 @ [CreateDir ''aquifer-git-XXXXXXX''],
                  files := (files ?s0)(resolve (cwd e) dp \<mapsto> Dir)\<rparr>"
  let ?all = "deploy_steps e opts dp @ [cleanup_step e opts dp, success_step]"
  have dc: "deploy_chain e opts ?s0 = chain ?all ?s1"
    by (simp add: deploy_chain_def mktemp_createDir_Inr [OF created] del: chain.simps)
  have r: "?r = (case chain ?all ?s1 of (None, s1) \<Rightarrow> s1 | (Some err, s1) \<Rightarrow> catch_handler e opts err s1)"
    using run_started [of config cli e fs] valid promise_chain_Inr [OF created, of opts ?s0]
    by (simp add: opts del: chain.simps)
  obtain rr sF where c: "chain ?all ?s1 = (rr, sF)" by (cases "chain ?all ?s1")
  from emitsD [OF emits_chain [of ?all "\<lambda>ev. \<forall>m. ev \<noteq> Callback m"], of ?s1] emits_no_callback [of _ e opts dp] c
  obtain evs where "trace sF = trace ?s1 @ evs" and "list_all (\<lambda>ev. \<forall>m. ev \<noteq> Callback m) evs"
    by auto
  then have none: "callbacks (trace sF) = []"
    by (simp add: callbacks_none)
  have d: "destPath sF = Some dp"
    using all_steps_destPath [of e opts dp ?s1] c by simp
  show ?thesis
    unfolding dc r c using none d by (cases rr) (simp_all add: catch_handler_trace)
qed

end
